theory Spec2Isabelle
  imports Main "HOL-Library.AList"
begin

section \<open>The lodash helpers the plugin calls\<close>

text \<open>
  The plugin (lib/index.js) works on arrays of path strings. Arrays are lists, a
  path is a \<open>string\<close>, and a property that may be missing is an \<open>option\<close>.

  \<open>opts.screenshotPaths\<close> is read from the raw plugin options: it is undefined, null,
  one string or an array of strings.
\<close>

datatype screenshotPaths = PathsUndefined | PathsNull | PathsString string | PathsArray "string list"

datatype jsval = JUndefined | JNull | JString string

text \<open>\<open>[].concat(x)\<close>: an array argument is spread, any other value becomes one element.\<close>

fun concat_to_empty :: "screenshotPaths \<Rightarrow> jsval list" where
  "concat_to_empty PathsUndefined = [JUndefined]"
| "concat_to_empty PathsNull = [JNull]"
| "concat_to_empty (PathsString s) = [JString s]"
| "concat_to_empty (PathsArray xs) = map JString xs"

text \<open>\<open>_.compact\<close> keeps the truthy elements: undefined, null and the empty string go.\<close>

fun compact :: "jsval list \<Rightarrow> string list" where
  "compact [] = []"
| "compact (JString s # vs) = (if s = [] then compact vs else s # compact vs)"
| "compact (v # vs) = compact vs"

text \<open>
  \<open>_.uniq\<close> walks the array and pushes a value to the result unless the result holds it
  already: the first occurrence of every value stays, in order.
\<close>

fun baseUniq :: "'a list \<Rightarrow> 'a list \<Rightarrow> 'a list" where
  "baseUniq result [] = result"
| "baseUniq result (x # xs) =
     (if x \<in> set result then baseUniq result xs else baseUniq (result @ [x]) xs)"

definition uniq :: "'a list \<Rightarrow> 'a list" where
  "uniq xs = baseUniq [] xs"

text \<open>
  \<open>_.difference(array, values)\<close> keeps, in order, the elements of \<open>array\<close> that
  \<open>values\<close> does not hold (strings compare by equality). An undefined \<open>values\<close> is
  dropped when lodash flattens its arguments, which leaves nothing to exclude.
\<close>

definition difference :: "'a list \<Rightarrow> 'a list option \<Rightarrow> 'a list" where
  "difference array values =
     (let excluded = (case values of None \<Rightarrow> [] | Some vs \<Rightarrow> vs)
      in filter (\<lambda>x. x \<notin> set excluded) array)"

text \<open>\<open>array.join(sep)\<close> and the decimal rendering of a number in a template literal.\<close>

fun join :: "string \<Rightarrow> string list \<Rightarrow> string" where
  "join sep [] = []"
| "join sep [x] = x"
| "join sep (x # y # ys) = x @ sep @ join sep (y # ys)"

function number_to_string :: "nat \<Rightarrow> string" where
  "number_to_string n =
     (if n < 10 then [char_of (48 + n)]
      else number_to_string (n div 10) @ [char_of (48 + n mod 10)])"
  by pat_completeness auto
termination
  by (relation "measure (\<lambda>n. n)") auto

declare number_to_string.simps [simp del]

section \<open>Options, tests and browser configuration\<close>

datatype hermioneCtx = HermioneCtx (ctxUsedRefPaths: "string list option")

record test =
  testFile :: string
  pending :: "bool option"
  silentSkip :: "bool option"
  hermioneCtx :: "hermioneCtx option"

record opts =
  screenshotPaths :: screenshotPaths
  runCleanScreenshots :: bool
  usedRefPaths :: "string list option"

datatype js_error = JsError (stack: "string option") (message: string)

text \<open>
  A browser's \<open>screenshotsDir\<close> is a string or a function of the test; its
  \<open>getScreenshotPath\<close> resolver may throw.
\<close>

datatype screenshots_dir = DirString string | DirFunction "test \<Rightarrow> string"

record browser_config =
  screenshotsDir :: screenshots_dir
  getScreenshotPath :: "test \<Rightarrow> string \<Rightarrow> js_error + string"


section \<open>The coordinator's state and its collaborators\<close>

text \<open>
  Tests are objects the handlers mutate in place, and one test object can be
  enumerated under several browsers, so tests live in a store and are named by
  reference. The run-scoped state is the array \<open>screenPatterns\<close>, the shared \<open>opts\<close>
  object and the store.
\<close>

record run_state =
  screenPatterns :: "string list"
  opts :: opts
  heap :: "nat \<Rightarrow> test"

text \<open>
  A test collection, as the plugin uses it: \<open>getBrowsers()\<close> and the pairs
  \<open>eachTest\<close> passes to its callback, in enumeration order.
\<close>

record collection =
  getBrowsers :: "string list"
  eachTest :: "(nat \<times> string) list"

datatype 'r event = AfterTestsRead collection | TestEnd 'r

text \<open>
  What the plugin consumes and does not implement: Node's \<open>process.cwd\<close> and
  \<open>path.resolve\<close>, the runner's browser configuration, \<open>mocha.getTestContext\<close>
  (lib/utils/mocha, taken as a parameter: it maps a runnable or an execution context to
  the test object it belongs to), \<open>Object.keys(EventEmitter.prototype)\<close>, the
  notifications the runner delivers during
  \<open>hermione.run()\<close> and whether that promise rejects, glob expansion, \<open>fs.stat\<close>
  (the size), the answers to the prompts (by question name), \<open>fs.unlink\<close> and
  \<open>filesize\<close>. A rejected promise or a throw is \<open>Inl\<close>.
\<close>

record 'r host =
  cwd :: string
  resolve :: "string list \<Rightarrow> string"
  forBrowser :: "string \<Rightarrow> browser_config"
  getTestContext :: "'r \<Rightarrow> nat"
  eventEmitterKeys :: "string list"
  runEvents :: "'r event list"
  runRejection :: "js_error option"
  expandPaths :: "string list \<Rightarrow> js_error + string list"
  stat :: "string \<Rightarrow> js_error + nat"
  prompt :: "string \<Rightarrow> js_error + bool"
  unlink :: "string \<Rightarrow> js_error + unit"
  filesize :: "nat \<Rightarrow> string"

section \<open>Pattern derivation: the AFTER_TESTS_READ handler\<close>

definition genScreenPattern :: "(string list \<Rightarrow> string) \<Rightarrow> string \<Rightarrow> string" where
  "genScreenPattern path_resolve pattern = path_resolve [pattern, ''**'', ''*.png'']"

text \<open>
  The handler collects the directory functions in a plain object \<open>screenDirFns\<close> with
  \<open>_.set(acc, browserId, screenshotsDir)\<close> and reads them back with
  \<open>screenDirFns[browserId]\<close>. lodash takes the second argument of \<open>_.set\<close> as a
  property path: a key with a dot names a nested property, so \<open>_.set(acc, 'a.b', f)\<close>
  stores \<open>f\<close> under \<open>acc.a.b\<close>, creating an object at \<open>acc.a\<close> unless \<open>acc.a\<close>
  is an object (or function) already. The handler only ever reads top-level properties,
  so the model keeps the own top-level properties of the object: a property holds a
  directory function, or something that cannot be called (an object made for a nested
  path).

  Two parts of JavaScript are outside this model: the bracket syntax of lodash paths
  (\<open>a[0]\<close>), and the property names that are special on a plain object: those it
  inherits from \<open>Object.prototype\<close>, and the keys lodash refuses to set
  (\<open>reservedProperty\<close> below lists both). A browser id is a \<open>modelledKey\<close> when it
  has no bracket and no step of its path is such a name, and a \<open>plainKey\<close> when it has
  no dot either. The theorems on the AFTER_TESTS_READ handler say which they need.
\<close>

datatype dir_entry = Callable "test \<Rightarrow> string" | NonCallable

type_synonym dir_fns = "(string \<times> dir_entry) list"

fun splitOn :: "char \<Rightarrow> string \<Rightarrow> string list" where
  "splitOn c [] = [[]]"
| "splitOn c (x # xs) =
     (if x = c then [] # splitOn c xs
      else (case splitOn c xs of [] \<Rightarrow> [[x]] | seg # segs \<Rightarrow> (x # seg) # segs))"

definition castPath :: "string \<Rightarrow> string list" where
  "castPath key = splitOn (CHR ''.'') key"

definition lodash_set :: "dir_fns \<Rightarrow> string \<Rightarrow> (test \<Rightarrow> string) \<Rightarrow> dir_fns" where
  "lodash_set object key v =
     (case castPath key of
        [] \<Rightarrow> object
      | [k] \<Rightarrow> AList.update k (Callable v) object
      | k # _ # _ \<Rightarrow>
          (case map_of object k of
             None \<Rightarrow> AList.update k NonCallable object
           | Some _ \<Rightarrow> object))"

definition reservedProperty :: "string \<Rightarrow> bool" where
  "reservedProperty key \<longleftrightarrow> key \<in> set [''constructor'', ''prototype'', ''__proto__'',
     ''hasOwnProperty'', ''isPrototypeOf'', ''propertyIsEnumerable'', ''toString'',
     ''toLocaleString'', ''valueOf'', ''__defineGetter__'', ''__defineSetter__'',
     ''__lookupGetter__'', ''__lookupSetter__'']"

definition modelledKey :: "string \<Rightarrow> bool" where
  "modelledKey key \<longleftrightarrow>
     CHR ''['' \<notin> set key \<and> CHR '']'' \<notin> set key \<and>
     list_all (\<lambda>k. \<not> reservedProperty k) (castPath key)"

definition plainKey :: "string \<Rightarrow> bool" where
  "plainKey key \<longleftrightarrow> modelledKey key \<and> CHR ''.'' \<notin> set key"

text \<open>The reducer over \<open>collection.getBrowsers()\<close> (lines 99-110).\<close>

definition collectBrowser ::
  "'r host \<Rightarrow> dir_fns \<times> string list \<Rightarrow> string \<Rightarrow> dir_fns \<times> string list" where
  "collectBrowser h accp browserId =
     (case accp of (acc, patterns) \<Rightarrow>
        (case screenshotsDir (forBrowser h browserId) of
           DirFunction f \<Rightarrow> (lodash_set acc browserId f, patterns)
         | DirString dir \<Rightarrow>
             (acc, patterns @ [genScreenPattern (resolve h) (resolve h [cwd h, dir])])))"

definition notAFunction :: js_error where
  "notAFunction = JsError (Some ''TypeError: screenDirFns[browserId] is not a function'')
     ''screenDirFns[browserId] is not a function''"

text \<open>
  The callback of \<open>collection.eachTest\<close> (lines 112-122): push the pattern of a
  directory function, then force a pending test on. Calling a property that is not a
  function throws; \<open>test.pending\<close> is truthy when it is \<open>true\<close>.
\<close>

definition eachTestCallback ::
  "'r host \<Rightarrow> dir_fns \<Rightarrow> run_state \<Rightarrow> nat \<times> string \<Rightarrow> js_error + run_state" where
  "eachTestCallback h screenDirFns st tb =
     (case tb of (t, browserId) \<Rightarrow>
        (case (case map_of screenDirFns browserId of
                 None \<Rightarrow> Inr st
               | Some NonCallable \<Rightarrow> Inl notAFunction
               | Some (Callable f) \<Rightarrow>
                   Inr (st\<lparr>screenPatterns :=
                              screenPatterns st @
                              [genScreenPattern (resolve h) (f (heap st t))]\<rparr>)) of
           Inl e \<Rightarrow> Inl e
         | Inr st1 \<Rightarrow>
             if pending (heap st1 t) = Some True
             then Inr (st1\<lparr>heap := (heap st1)
                            (t := (heap st1 t)\<lparr>pending := Some False, silentSkip := Some False\<rparr>)\<rparr>)
             else Inr st1))"

fun forEachTest ::
  "'r host \<Rightarrow> dir_fns \<Rightarrow> run_state \<Rightarrow> (nat \<times> string) list \<Rightarrow> js_error + run_state" where
  "forEachTest h fns st [] = Inr st"
| "forEachTest h fns st (tb # tbs) =
     (case eachTestCallback h fns st tb of
        Inl e \<Rightarrow> Inl e
      | Inr st' \<Rightarrow> forEachTest h fns st' tbs)"

definition onAfterTestsRead :: "'r host \<Rightarrow> run_state \<Rightarrow> collection \<Rightarrow> js_error + run_state" where
  "onAfterTestsRead h st c =
     (case foldl (collectBrowser h) ([], screenPatterns st) (getBrowsers c) of
        (screenDirFns, patterns) \<Rightarrow>
          forEachTest h screenDirFns (st\<lparr>screenPatterns := patterns\<rparr>) (eachTest c))"

section \<open>Usage aggregation: the TEST_END handler\<close>

text \<open>
  \<open>_.get(context, 'hermioneCtx.usedRefPaths')\<close> is undefined when a step of the path is
  missing; the test is on its truthiness, and every array is truthy.
\<close>

definition get_usedRefPaths :: "test \<Rightarrow> string list option" where
  "get_usedRefPaths context =
     (case hermioneCtx context of None \<Rightarrow> None | Some c \<Rightarrow> ctxUsedRefPaths c)"

definition orEmpty :: "'a list option \<Rightarrow> 'a list" where
  "orEmpty v = (case v of None \<Rightarrow> [] | Some xs \<Rightarrow> xs)"

definition onTestEnd :: "'r host \<Rightarrow> run_state \<Rightarrow> 'r \<Rightarrow> run_state" where
  "onTestEnd h st t =
     (let context = heap st (getTestContext h t) in
      case get_usedRefPaths context of
        None \<Rightarrow> st
      | Some paths \<Rightarrow>
          st\<lparr>opts := (opts st)\<lparr>usedRefPaths := Some (orEmpty (usedRefPaths (opts st)) @ paths)\<rparr>\<rparr>)"

section \<open>The run\<close>

text \<open>
  \<open>hermione.run()\<close> delivers the notifications to the two handlers, one after the
  other; a handler that throws makes the run reject.
\<close>

fun deliver :: "'r host \<Rightarrow> run_state \<Rightarrow> 'r event list \<Rightarrow> js_error + run_state" where
  "deliver h st [] = Inr st"
| "deliver h st (AfterTestsRead c # evs) =
     (case onAfterTestsRead h st c of Inl e \<Rightarrow> Inl e | Inr st' \<Rightarrow> deliver h st' evs)"
| "deliver h st (TestEnd t # evs) = deliver h (onTestEnd h st t) evs"

definition hermione_run :: "'r host \<Rightarrow> run_state \<Rightarrow> js_error + run_state" where
  "hermione_run h st =
     (case deliver h st (runEvents h) of
        Inl e \<Rightarrow> Inl e
      | Inr st' \<Rightarrow> (case runRejection h of Some e \<Rightarrow> Inl e | None \<Rightarrow> Inr st'))"


section \<open>The clean-screenshots action\<close>

text \<open>
  The action is observed through the calls it makes to its collaborators, in order.
  \<open>logger.error\<close> receives \<open>err.stack || err\<close>: a text or the error itself. A
  prompt is recorded with the name and the message of its question.
\<close>

datatype logged = Text string | ErrorObject js_error

datatype call =
    HermioneRun
  | Debug string
  | LoggerLog string
  | LoggerError logged
  | ExpandPaths "string list" string
  | FsStat string
  | Prompt string string
  | FsUnlink string
  | ProcessExit nat

text \<open>The four ways the body of the \<open>try\<close> block returns.\<close>

datatype outcome = PathsNotFound | UnusedNotFound | Canceled | Removed

definition newline :: string where
  "newline = [CHR 0x0A]"

text \<open>
  \<open>pMap(items, mapper)\<close> runs with unbounded concurrency: it calls the mapper on
  every item before any call settles, so every call is made whatever its result; the
  promise rejects when a call rejects (here: the first in item order) and resolves to
  the results otherwise.
\<close>

fun pMap :: "('a \<Rightarrow> js_error + 'b) \<Rightarrow> 'a list \<Rightarrow> js_error + 'b list" where
  "pMap mapper [] = Inr []"
| "pMap mapper (x # xs) =
     (case mapper x of
        Inl e \<Rightarrow> Inl e
      | Inr y \<Rightarrow> (case pMap mapper xs of Inl e \<Rightarrow> Inl e | Inr ys \<Rightarrow> Inr (y # ys)))"

definition after :: "call list \<Rightarrow> call list \<times> 'a \<Rightarrow> call list \<times> 'a" where
  "after calls rest = (calls @ fst rest, snd rest)"

text \<open>Line 87-88: unlink every unused path, then report.\<close>

definition removeStep :: "'r host \<Rightarrow> string list \<Rightarrow> call list \<times> (js_error + outcome)" where
  "removeStep h unusedRefPaths =
     (case pMap (unlink h) unusedRefPaths of
        Inl e \<Rightarrow> (map FsUnlink unusedRefPaths, Inl e)
      | Inr _ \<Rightarrow>
          (map FsUnlink unusedRefPaths @
             [LoggerLog ''Deletion of unused screenshots was succeeded''], Inr Removed))"

text \<open>Lines 75-85: the "remove" question.\<close>

definition confirmStep :: "'r host \<Rightarrow> string list \<Rightarrow> call list \<times> (js_error + outcome)" where
  "confirmStep h unusedRefPaths =
     (case prompt h ''remove'' of
        Inl e \<Rightarrow> ([Prompt ''remove'' ''Remove unused screenshots?''], Inl e)
      | Inr remove \<Rightarrow>
          if \<not> remove
          then ([Prompt ''remove'' ''Remove unused screenshots?'',
                 LoggerLog ''Deletion of unused screenshots was canceled''],
                Inr Canceled)
          else after [Prompt ''remove'' ''Remove unused screenshots?''] (removeStep h unusedRefPaths))"

text \<open>Lines 64-73: the "show" question.\<close>

definition showStep :: "'r host \<Rightarrow> string list \<Rightarrow> call list \<times> (js_error + outcome)" where
  "showStep h unusedRefPaths =
     (case prompt h ''show'' of
        Inl e \<Rightarrow> ([Prompt ''show'' ''Show list of unused screenshosts?''], Inl e)
      | Inr show \<Rightarrow>
          after (Prompt ''show'' ''Show list of unused screenshosts?'' #
                   (if show
                    then [LoggerLog (''List of unused screenshots:'' @ newline @
                                       join newline unusedRefPaths)]
                    else []))
            (confirmStep h unusedRefPaths))"

text \<open>Lines 61-62: the sizes.\<close>

definition sizeStep :: "'r host \<Rightarrow> string list \<Rightarrow> call list \<times> (js_error + outcome)" where
  "sizeStep h unusedRefPaths =
     (case pMap (stat h) unusedRefPaths of
        Inl e \<Rightarrow> (map FsStat unusedRefPaths, Inl e)
      | Inr sizes \<Rightarrow>
          (let bytes = foldl (+) 0 sizes in
           after (map FsStat unusedRefPaths @
                    [LoggerLog (''Found '' @ number_to_string (length unusedRefPaths) @
                                  '' unused screenshots with total size '' @ filesize h bytes)])
             (showStep h unusedRefPaths)))"

text \<open>Lines 53-59: the difference.\<close>

definition diffStep ::
  "'r host \<Rightarrow> run_state \<Rightarrow> string list \<Rightarrow> string list \<Rightarrow> call list \<times> (js_error + outcome)" where
  "diffStep h st patterns readRefPaths =
     (let unusedRefPaths = difference readRefPaths (usedRefPaths (opts st)) in
      if unusedRefPaths = []
      then ([LoggerLog (''Unused screenshots not found by patterns: '' @ join '','' patterns)],
            Inr UnusedNotFound)
      else after [Debug (''Found unused screenshots:'' @ newline @ join newline unusedRefPaths)]
             (sizeStep h unusedRefPaths))"

text \<open>Lines 41-51: deduplicate the patterns and expand them.\<close>

definition expandStep :: "'r host \<Rightarrow> run_state \<Rightarrow> call list \<times> (js_error + outcome)" where
  "expandStep h st =
     (let patterns = uniq (screenPatterns st);
          calls = [Debug (''Try to find screen paths on file system by patterns:'' @ newline @
                            join newline patterns),
                   ExpandPaths patterns ''.png'']
      in case expandPaths h patterns of
           Inl e \<Rightarrow> (calls, Inl e)
         | Inr readRefPaths \<Rightarrow>
             if readRefPaths = []
             then (calls @
                     [LoggerError (Text (''Screenshot paths not found on file system by patterns:'' @
                                           newline @ join newline patterns))],
                   Inr PathsNotFound)
             else after (calls @
                           [Debug (''Found screen paths on file system:'' @ newline @
                                     join newline readRefPaths)])
                    (diffStep h st patterns readRefPaths))"

text \<open>Lines 35-39: the static patterns, the flag, the run.\<close>

definition initialState :: "opts \<Rightarrow> (nat \<Rightarrow> test) \<Rightarrow> run_state" where
  "initialState o0 tests =
     \<lparr>screenPatterns = compact (concat_to_empty (screenshotPaths o0)),
      opts = o0\<lparr>runCleanScreenshots := True\<rparr>,
      heap = tests\<rparr>"

definition actionBody ::
  "'r host \<Rightarrow> opts \<Rightarrow> (nat \<Rightarrow> test) \<Rightarrow> call list \<times> (js_error + outcome)" where
  "actionBody h o0 tests =
     (case hermione_run h (initialState o0 tests) of
        Inl e \<Rightarrow> ([HermioneRun], Inl e)
      | Inr st \<Rightarrow> after [HermioneRun] (expandStep h st))"

text \<open>Lines 89-92: the catch block. \<open>err.stack || err\<close>: an empty stack is falsy.\<close>

definition stackOrError :: "js_error \<Rightarrow> logged" where
  "stackOrError err =
     (case stack err of
        None \<Rightarrow> ErrorObject err
      | Some s \<Rightarrow> if s = [] then ErrorObject err else Text s)"

definition cleanScreenshots ::
  "'r host \<Rightarrow> opts \<Rightarrow> (nat \<Rightarrow> test) \<Rightarrow> call list \<times> outcome option" where
  "cleanScreenshots h o0 tests =
     (case actionBody h o0 tests of
        (calls, Inl err) \<Rightarrow> (calls @ [LoggerError (stackOrError err), ProcessExit 1], None)
      | (calls, Inr out) \<Rightarrow> (calls, Some out))"


section \<open>The worker: the NEW_BROWSER handler\<close>

text \<open>
  A session is seen through the own enumerable properties of its prototype
  (\<open>Object.keys(proto)\<close>, with what each name is bound to), its
  \<open>executionContext\<close> and the calls made to its \<open>addCommand\<close>. The plugin always
  passes \<open>true\<close> as the third argument, so \<open>addCommand\<close> binds the name, replacing a
  command of that name.
\<close>

datatype command = Original string | StubCommand | AssertViewStub string

record 'r browser =
  proto :: "(string \<times> command) list"
  executionContext :: 'r
  addCommandCalls :: "(string \<times> command \<times> bool) list"

definition addCommand :: "'r browser \<Rightarrow> string \<Rightarrow> command \<Rightarrow> 'r browser" where
  "addCommand b name fn =
     b\<lparr>proto := AList.update name fn (proto b),
       addCommandCalls := addCommandCalls b @ [(name, fn, True)]\<rparr>"

definition reservedCommands :: "'r host \<Rightarrow> string list" where
  "reservedCommands h = eventEmitterKeys h @ [''addCommand'', ''assertView'', ''executionContext'']"

definition startsWithUnderscore :: "string \<Rightarrow> bool" where
  "startsWithUnderscore command = (case command of [] \<Rightarrow> False | c # _ \<Rightarrow> c = CHR ''_'')"

definition commandsList :: "'r host \<Rightarrow> 'r browser \<Rightarrow> string list" where
  "commandsList h b =
     filter (\<lambda>command. \<not> (command \<in> set (reservedCommands h) \<or> startsWithUnderscore command))
       (map fst (proto b))"

definition onNewBrowser :: "'r host \<Rightarrow> opts \<Rightarrow> 'r browser \<Rightarrow> string \<Rightarrow> 'r browser" where
  "onNewBrowser h o0 b browserId =
     (if \<not> runCleanScreenshots o0 then b
      else addCommand
             (foldl (\<lambda>b' commandName. addCommand b' commandName StubCommand) b (commandsList h b))
             ''assertView'' (AssertViewStub browserId))"

text \<open>The stub \<open>async () => ({value: {}})\<close> installed for \<open>StubCommand\<close>.\<close>

datatype json = JsonObject "(string \<times> json) list"

definition stubCommand :: "'a \<Rightarrow> js_error + json" where
  "stubCommand args = Inr (JsonObject [(''value'', JsonObject [])])"

text \<open>
  The function installed for \<open>assertView\<close> (lines 151-155). It calls
  \<open>mocha.getTestContext\<close> and the resolver and writes the accumulator of the test; the
  trace records these two calls, the second with what the resolver returned. A test
  without \<open>hermioneCtx\<close> makes the assignment throw.
\<close>

datatype worker_call = GetTestContext | GetScreenshotPath nat string "js_error + string"

record worker_state =
  tests :: "nat \<Rightarrow> test"
  trace :: "worker_call list"

definition noHermioneCtx :: js_error where
  "noHermioneCtx = JsError (Some ''TypeError: Cannot read property usedRefPaths of undefined'')
     ''Cannot read property usedRefPaths of undefined''"

definition assertViewStub ::
  "'r host \<Rightarrow> string \<Rightarrow> 'r browser \<Rightarrow> worker_state \<Rightarrow> string \<Rightarrow> js_error + worker_state" where
  "assertViewStub h browserId b ws state =
     (let t = getTestContext h (executionContext b);
          refPath = getScreenshotPath (forBrowser h browserId) (tests ws t) state
      in case refPath of
           Inl e \<Rightarrow> Inl e
         | Inr path \<Rightarrow>
             (case hermioneCtx (tests ws t) of
                None \<Rightarrow> Inl noHermioneCtx
              | Some c \<Rightarrow>
                  Inr \<lparr>tests = (tests ws)
                         (t := (tests ws t)
                            \<lparr>hermioneCtx :=
                               Some (HermioneCtx (Some (orEmpty (ctxUsedRefPaths c) @ [path])))\<rparr>),
                       trace = trace ws @ [GetTestContext, GetScreenshotPath t state refPath]\<rparr>))"

text \<open>A test calling \<open>browser.assertView\<close> with one state label after the other.\<close>

fun assertViews ::
  "'r host \<Rightarrow> string \<Rightarrow> 'r browser \<Rightarrow> worker_state \<Rightarrow> string list \<Rightarrow> js_error + worker_state" where
  "assertViews h browserId b ws [] = Inr ws"
| "assertViews h browserId b ws (state # states) =
     (case assertViewStub h browserId b ws state of
        Inl e \<Rightarrow> Inl e
      | Inr ws' \<Rightarrow> assertViews h browserId b ws' states)"


section \<open>Reading the calls of a run\<close>

fun isStat :: "call \<Rightarrow> bool" where
  "isStat (FsStat p) = True"
| "isStat c = False"

fun isPrompt :: "call \<Rightarrow> bool" where
  "isPrompt (Prompt name question) = True"
| "isPrompt c = False"

fun isUnlink :: "call \<Rightarrow> bool" where
  "isUnlink (FsUnlink p) = True"
| "isUnlink c = False"

fun isExit :: "call \<Rightarrow> bool" where
  "isExit (ProcessExit n) = True"
| "isExit c = False"

fun expandedPatterns :: "call list \<Rightarrow> string list list" where
  "expandedPatterns [] = []"
| "expandedPatterns (ExpandPaths patterns formats # cs) = patterns # expandedPatterns cs"
| "expandedPatterns (c # cs) = expandedPatterns cs"

text \<open>
  The failure of a pipeline step, written after section 4.4 of the specification: the
  run, the expansion, and, when something unused is found, the sizes, the two questions
  and, on a positive answer, the deletion.
\<close>

definition pipelineFailure :: "'r host \<Rightarrow> opts \<Rightarrow> (nat \<Rightarrow> test) \<Rightarrow> js_error option" where
  "pipelineFailure h o0 tests0 =
     (case hermione_run h (initialState o0 tests0) of
        Inl e \<Rightarrow> Some e
      | Inr st \<Rightarrow>
          (case expandPaths h (uniq (screenPatterns st)) of
             Inl e \<Rightarrow> Some e
           | Inr found \<Rightarrow>
               (let unused = difference found (usedRefPaths (opts st)) in
                if unused = [] then None
                else (case pMap (stat h) unused of
                        Inl e \<Rightarrow> Some e
                      | Inr sizes \<Rightarrow>
                          (case prompt h ''show'' of
                             Inl e \<Rightarrow> Some e
                           | Inr sh \<Rightarrow>
                               (case prompt h ''remove'' of
                                  Inl e \<Rightarrow> Some e
                                | Inr rm \<Rightarrow>
                                    if rm
                                    then (case pMap (unlink h) unused of
                                            Inl e \<Rightarrow> Some e
                                          | Inr u \<Rightarrow> None)
                                    else None))))))"

section \<open>Pattern derivation as the specification words it\<close>

text \<open>
  Section 4.1 of the specification: one pattern for each participating browser whose
  directory is a fixed string, then one pattern for each enumerated pair whose browser
  has a directory function. The function sees the test as it is when the pair is
  reached, that is, forced on by an earlier pair that named the same test.
\<close>

definition enableTest :: "test \<Rightarrow> test" where
  "enableTest t = (if pending t = Some True
                   then t\<lparr>pending := Some False, silentSkip := Some False\<rparr> else t)"

definition fixedDirPatterns :: "'r host \<Rightarrow> string list \<Rightarrow> string list" where
  "fixedDirPatterns h browsers =
     concat (map (\<lambda>b. case screenshotsDir (forBrowser h b) of
                         DirString dir \<Rightarrow> [genScreenPattern (resolve h) (resolve h [cwd h, dir])]
                       | DirFunction f \<Rightarrow> [])
               browsers)"

fun perTestPatterns ::
  "'r host \<Rightarrow> string list \<Rightarrow> (nat \<Rightarrow> test) \<Rightarrow> (nat \<times> string) list \<Rightarrow> string list" where
  "perTestPatterns h browsers ts [] = []"
| "perTestPatterns h browsers ts ((t, b) # tbs) =
     (case screenshotsDir (forBrowser h b) of
        DirFunction f \<Rightarrow>
          if b \<in> set browsers then [genScreenPattern (resolve h) (f (ts t))] else []
      | DirString dir \<Rightarrow> []) @
     perTestPatterns h browsers (ts(t := enableTest (ts t))) tbs"

text \<open>
  What \<open>screenDirFns\<close> should hold once the browsers \<open>bs\<close> are collected on top of
  the properties \<open>m\<close>: the directory function of every browser that has one.
\<close>

definition dirFnsOf ::
  "'r host \<Rightarrow> string list \<Rightarrow> (string \<Rightarrow> dir_entry option) \<Rightarrow> string \<Rightarrow> dir_entry option" where
  "dirFnsOf h bs m k =
     (case screenshotsDir (forBrowser h k) of
        DirFunction f \<Rightarrow> if k \<in> set bs then Some (Callable f) else m k
      | DirString dir \<Rightarrow> m k)"

definition derivedPatterns :: "'r host \<Rightarrow> collection \<Rightarrow> (nat \<Rightarrow> test) \<Rightarrow> string list" where
  "derivedPatterns h c ts =
     fixedDirPatterns h (getBrowsers c) @ perTestPatterns h (getBrowsers c) ts (eachTest c)"

section \<open>Examples: the scenarios of the test suite\<close>

text \<open>
  To run the examples, a model of Node's \<open>path.resolve\<close> on POSIX: the arguments from
  the last absolute one on (the working directory when none is), split at the slashes
  and normalised.
\<close>

definition isAbsolute :: "string \<Rightarrow> bool" where
  "isAbsolute p = (case p of [] \<Rightarrow> False | c # _ \<Rightarrow> c = CHR ''/'')"

fun normalizeSegments :: "string list \<Rightarrow> string list \<Rightarrow> string list" where
  "normalizeSegments up [] = rev up"
| "normalizeSegments up (s # ss) =
     (if s = [] \<or> s = ''.'' then normalizeSegments up ss
      else if s = ''..'' then normalizeSegments (tl up) ss
      else normalizeSegments (s # up) ss)"

definition usedPaths :: "string list \<Rightarrow> string list" where
  "usedPaths ps =
     foldl (\<lambda>acc p. if p = [] then acc else if isAbsolute p then [p] else acc @ [p]) [] ps"

definition resolvedSegments :: "string \<Rightarrow> string list \<Rightarrow> string list" where
  "resolvedSegments workdir paths =
     normalizeSegments [] (concat (map (splitOn (CHR ''/'')) (usedPaths (workdir # paths))))"

definition posixResolve :: "string \<Rightarrow> string list \<Rightarrow> string" where
  "posixResolve workdir paths = CHR ''/'' # join ''/'' (resolvedSegments workdir paths)"

definition cleanSegment :: "string \<Rightarrow> bool" where
  "cleanSegment s \<longleftrightarrow> s \<noteq> [] \<and> s \<noteq> ''.'' \<and> s \<noteq> ''..''"

text \<open>
  The collaborators of the test suite: the working directory \<open>/dir\<close>, browsers
  \<open>yabro1\<close> and \<open>yabro2\<close> with fixed directories and \<open>yabro\<close> with a directory
  function, a resolver for the labels \<open>plain1\<close> and \<open>plain2\<close>, two screenshots on
  disk of 100 and 200 bytes, and a user who does not ask for the list and confirms the
  removal. Test 0 is pending; test 2 has used one screenshot; test 3 carries an empty
  list.
\<close>

definition exResolver :: "test \<Rightarrow> string \<Rightarrow> js_error + string" where
  "exResolver t state =
     (if state = ''plain1'' then Inr ''/ref/1''
      else if state = ''plain2'' then Inr ''/ref/2''
      else Inl (JsError None ''no reference''))"

definition exConfig :: "string \<Rightarrow> browser_config" where
  "exConfig browserId =
     (if browserId = ''yabro1''
      then \<lparr>screenshotsDir = DirString ''yabro1/screens'', getScreenshotPath = exResolver\<rparr>
      else if browserId = ''yabro2''
      then \<lparr>screenshotsDir = DirString ''yabro2/screens'', getScreenshotPath = exResolver\<rparr>
      else if browserId = ''yabro'' \<or> browserId = ''chrome.90''
      then \<lparr>screenshotsDir = DirFunction (\<lambda>t. testFile t @ ''/screens''),
            getScreenshotPath = exResolver\<rparr>
      else \<lparr>screenshotsDir = DirString ''/deafult-dir'', getScreenshotPath = exResolver\<rparr>)"

definition exTest :: "string \<Rightarrow> bool option \<Rightarrow> string list option \<Rightarrow> test" where
  "exTest f p used =
     \<lparr>testFile = f, pending = p, silentSkip = None, hermioneCtx = Some (HermioneCtx used)\<rparr>"

definition exTests :: "nat \<Rightarrow> test" where
  "exTests t =
     (if t = 0 then exTest ''/dir/file1'' (Some True) None
      else if t = 2 then exTest ''/dir/file2'' None (Some [''/screens/plain.png''])
      else if t = 3 then exTest ''/dir/file3'' (Some False) (Some [])
      else exTest ''/dir/other'' None None)"

definition exOpts :: opts where
  "exOpts = \<lparr>screenshotPaths = PathsArray [''/screens/**''], runCleanScreenshots = False,
            usedRefPaths = None\<rparr>"

definition exHost :: "nat host" where
  "exHost =
     \<lparr>cwd = ''/dir'',
      resolve = posixResolve ''/dir'',
      forBrowser = exConfig,
      getTestContext = (\<lambda>r. r),
      eventEmitterKeys = [''setMaxListeners'', ''getMaxListeners'', ''emit'', ''addListener'',
        ''on'', ''prependListener'', ''once'', ''prependOnceListener'', ''removeListener'',
        ''off'', ''removeAllListeners'', ''listeners'', ''rawListeners'', ''listenerCount'',
        ''eventNames''],
      runEvents = [],
      runRejection = None,
      expandPaths = (\<lambda>patterns. Inr [''/screens/plain.png'', ''/screens/hover.png'']),
      stat = (\<lambda>p. if p = ''/screens/plain.png'' then Inr 100 else Inr 200),
      prompt = (\<lambda>question. Inr (question = ''remove'')),
      unlink = (\<lambda>p. Inr ()),
      filesize = (\<lambda>bytes. number_to_string bytes @ '' B'')\<rparr>"

definition exCollection :: collection where
  "exCollection = \<lparr>getBrowsers = [''yabro1'', ''yabro''],
                   eachTest = [(0, ''yabro1''), (0, ''yabro''), (2, ''yabro1''), (2, ''yabro'')]\<rparr>"

text \<open>
  A collection with a dotted browser id: \<open>chrome.90\<close> has a directory function,
  \<open>chrome\<close> the default fixed directory; the pending test 0 runs in \<open>chrome\<close>.
\<close>

definition exDottedCollection :: collection where
  "exDottedCollection = \<lparr>getBrowsers = [''chrome.90'', ''chrome''],
                         eachTest = [(2, ''chrome.90''), (0, ''chrome'')]\<rparr>"

definition exBrowser :: "nat browser" where
  "exBrowser =
     \<lparr>proto = [(''broCommand'', Original ''broCommand''), (''on'', Original ''on''),
               (''_private1'', Original ''_private1''),
               (''executionContext'', Original ''executionContext''),
               (''addCommand'', Original ''addCommand''),
               (''assertView'', Original ''assertView'')],
      executionContext = 4,
      addCommandCalls = []\<rparr>"

section \<open>Facts about the helpers\<close>





lemma distinct_difference: "distinct found \<Longrightarrow> distinct (difference found used)"
  by (simp add: difference_def)

lemma count_list_distinct: "distinct xs \<Longrightarrow> count_list xs x = (if x \<in> set xs then 1 else 0)"
  by (induction xs) auto

lemma pMap_all: "(\<exists>ys. pMap f xs = Inr ys) \<longleftrightarrow> (\<forall>x\<in>set xs. \<exists>y. f x = Inr y)"
  by (induction xs) (auto split: sum.splits)

lemma splitOn_no_separator: "c \<notin> set s \<Longrightarrow> splitOn c s = [s]"
  by (induction s) auto

lemma lodash_set_plain:
  "CHR ''.'' \<notin> set key \<Longrightarrow> lodash_set object key v = AList.update key (Callable v) object"
  by (simp add: lodash_set_def castPath_def splitOn_no_separator)

lemmas ex_defs = exHost_def exOpts_def exTests_def exTest_def exConfig_def exResolver_def
  exCollection_def exBrowser_def

section \<open>The calls of the action, step by step\<close>

lemma fst_after [simp]: "fst (after cs r) = cs @ fst r"
  by (simp add: after_def)

lemma snd_after [simp]: "snd (after cs r) = snd r"
  by (simp add: after_def)

lemma removeStep_calls:
  "fst (removeStep h u) =
     map FsUnlink u @
     (case pMap (unlink h) u of
        Inl e \<Rightarrow> []
      | Inr x \<Rightarrow> [LoggerLog ''Deletion of unused screenshots was succeeded''])"
  by (simp add: removeStep_def split: sum.splits)

lemma removeStep_result:
  "snd (removeStep h u) = (case pMap (unlink h) u of Inl e \<Rightarrow> Inl e | Inr x \<Rightarrow> Inr Removed)"
  by (simp add: removeStep_def split: sum.splits)

lemma filter_isExit_map [simp]:
  "filter isExit (map FsUnlink u) = []" "filter isExit (map FsStat u) = []"
  by (induction u) auto

lemma filter_isUnlink_map [simp]:
  "filter isUnlink (map FsUnlink u) = map FsUnlink u" "filter isUnlink (map FsStat u) = []"
  by (induction u) auto

lemma filter_isStat_map [simp]:
  "filter isStat (map FsStat u) = map FsStat u" "filter isStat (map FsUnlink u) = []"
  by (induction u) auto

lemma count_list_map_FsUnlink [simp]:
  "count_list (map FsUnlink u) (FsUnlink p) = count_list u p"
  by (induction u) auto

lemma count_list_map_FsStat [simp]: "count_list (map FsStat u) (FsUnlink p) = 0"
  by (induction u) auto

lemma expandedPatterns_append [simp]:
  "expandedPatterns (xs @ ys) = expandedPatterns xs @ expandedPatterns ys"
  by (induction xs rule: expandedPatterns.induct) auto

lemma expandedPatterns_map [simp]:
  "expandedPatterns (map FsStat u) = []" "expandedPatterns (map FsUnlink u) = []"
  by (induction u) auto

lemma no_exit_removeStep: "filter isExit (fst (removeStep h u)) = []"
  by (simp add: removeStep_calls split: sum.splits)

lemma no_exit_confirmStep: "filter isExit (fst (confirmStep h u)) = []"
  by (simp add: confirmStep_def no_exit_removeStep split: sum.splits)

lemma no_exit_showStep: "filter isExit (fst (showStep h u)) = []"
  by (simp add: showStep_def no_exit_confirmStep split: sum.splits)

lemma no_exit_sizeStep: "filter isExit (fst (sizeStep h u)) = []"
  by (simp add: sizeStep_def Let_def no_exit_showStep split: sum.splits)

lemma no_exit_diffStep: "filter isExit (fst (diffStep h st ps found)) = []"
  by (simp add: diffStep_def Let_def no_exit_sizeStep)

lemma no_exit_expandStep: "filter isExit (fst (expandStep h st)) = []"
  by (simp add: expandStep_def Let_def no_exit_diffStep split: sum.splits)

lemma no_exit_actionBody: "filter isExit (fst (actionBody h o0 t0)) = []"
  by (simp add: actionBody_def no_exit_expandStep split: sum.splits)

lemma sizeStep_result:
  "snd (sizeStep h u) =
     (case pMap (stat h) u of
        Inl e \<Rightarrow> Inl e
      | Inr sizes \<Rightarrow>
          (case prompt h ''show'' of
             Inl e \<Rightarrow> Inl e
           | Inr sh \<Rightarrow>
               (case prompt h ''remove'' of
                  Inl e \<Rightarrow> Inl e
                | Inr rm \<Rightarrow>
                    if rm
                    then (case pMap (unlink h) u of Inl e \<Rightarrow> Inl e | Inr x \<Rightarrow> Inr Removed)
                    else Inr Canceled)))"
  by (simp add: sizeStep_def showStep_def confirmStep_def removeStep_result Let_def
      split: sum.splits)


lemma actionBody_failure:
  "(case snd (actionBody h o0 t0) of Inl e \<Rightarrow> Some e | Inr out \<Rightarrow> None) =
     pipelineFailure h o0 t0"
  by (simp add: actionBody_def pipelineFailure_def expandStep_def diffStep_def Let_def
      sizeStep_result difference_def split: sum.splits)

lemma fst_cleanScreenshots:
  "fst (cleanScreenshots h o0 tests0) =
     fst (actionBody h o0 tests0) @
     (case snd (actionBody h o0 tests0) of
        Inl err \<Rightarrow> [LoggerError (stackOrError err), ProcessExit 1]
      | Inr out \<Rightarrow> [])"
  by (cases "actionBody h o0 tests0") (simp add: cleanScreenshots_def split: sum.splits)





lemma filter_isStat_showStep: "filter isStat (fst (showStep h u)) = []"
  by (simp add: showStep_def confirmStep_def removeStep_def split: sum.splits)

lemma filter_isStat_sizeStep: "filter isStat (fst (sizeStep h u)) = map FsStat u"
  by (simp add: sizeStep_def Let_def filter_isStat_showStep split: sum.splits)

text \<open>The whole list of calls once something unused is found and the questions are answered.\<close>

lemma cleanScreenshots_unused:
  assumes run: "hermione_run h (initialState o0 tests0) = Inr st"
      and expand: "expandPaths h (uniq (screenPatterns st)) = Inr found"
      and unused: "unused = difference found (usedRefPaths (opts st))" "unused \<noteq> []"
      and sizes: "pMap (stat h) unused = Inr sizes"
      and sh: "prompt h ''show'' = Inr sh"
      and rm: "prompt h ''remove'' = Inr rm"
  shows "cleanScreenshots h o0 tests0 =
    (let pre = [HermioneRun,
             Debug (''Try to find screen paths on file system by patterns:'' @ newline @
                      join newline (uniq (screenPatterns st))),
             ExpandPaths (uniq (screenPatterns st)) ''.png'',
             Debug (''Found screen paths on file system:'' @ newline @ join newline found),
             Debug (''Found unused screenshots:'' @ newline @ join newline unused)] @
             map FsStat unused @
             [LoggerLog (''Found '' @ number_to_string (length unused) @
                           '' unused screenshots with total size '' @
                           filesize h (foldl (+) 0 sizes)),
              Prompt ''show'' ''Show list of unused screenshosts?''] @
             (if sh
              then [LoggerLog (''List of unused screenshots:'' @ newline @ join newline unused)]
              else []) @
             [Prompt ''remove'' ''Remove unused screenshots?'']
     in if \<not> rm
        then (pre @ [LoggerLog ''Deletion of unused screenshots was canceled''], Some Canceled)
        else (case pMap (unlink h) unused of
                Inl e \<Rightarrow>
                  (pre @ map FsUnlink unused @ [LoggerError (stackOrError e), ProcessExit 1], None)
              | Inr u \<Rightarrow>
                  (pre @ map FsUnlink unused @
                     [LoggerLog ''Deletion of unused screenshots was succeeded''],
                   Some Removed)))"
proof -
  have found: "found \<noteq> []" using unused by (auto simp: difference_def)
  have d: "difference found (usedRefPaths (opts st)) = unused" using unused by simp
  show ?thesis
    using unused(2) found
    by (simp add: d cleanScreenshots_def actionBody_def run expandStep_def expand Let_def
      diffStep_def sizeStep_def sizes showStep_def sh confirmStep_def rm removeStep_def after_def
      split: sum.splits)
qed

section \<open>The AFTER_TESTS_READ handler against the specification\<close>

lemma enableTest_idem [simp]: "enableTest (enableTest t) = enableTest t"
  by (simp add: enableTest_def)

text \<open>The callback, with the two steps read as one update of the store.\<close>

lemma eachTestCallback_alt:
  "eachTestCallback h fns st (t, b) =
     (case map_of fns b of
        Some NonCallable \<Rightarrow> Inl notAFunction
      | Some (Callable f) \<Rightarrow>
          Inr (st\<lparr>screenPatterns :=
                     screenPatterns st @ [genScreenPattern (resolve h) (f (heap st t))],
                   heap := (heap st)(t := enableTest (heap st t))\<rparr>)
      | None \<Rightarrow> Inr (st\<lparr>heap := (heap st)(t := enableTest (heap st t))\<rparr>))"
  by (simp add: eachTestCallback_def enableTest_def split: option.splits dir_entry.splits)

lemma eachTestCallback_effect:
  assumes "eachTestCallback h fns st (t, b) = Inr st'"
  shows "heap st' = (heap st)(t := enableTest (heap st t))" and "opts st' = opts st"
  using assms
  by (auto simp: eachTestCallback_alt split: option.splits dir_entry.splits)

lemma forEachTest_effect:
  assumes "forEachTest h fns st tbs = Inr st'"
  shows "heap st' = (\<lambda>t. if t \<in> fst ` set tbs then enableTest (heap st t) else heap st t)
         \<and> opts st' = opts st"
  using assms
proof (induction tbs arbitrary: st)
  case Nil
  then show ?case by simp
next
  case (Cons tb tbs)
  obtain t b where tb: "tb = (t, b)" by (cases tb)
  from Cons.prems obtain st1 where
    s1: "eachTestCallback h fns st (t, b) = Inr st1" and
    s2: "forEachTest h fns st1 tbs = Inr st'"
    by (auto simp: tb split: sum.splits)
  note e = eachTestCallback_effect[OF s1]
  from Cons.IH[OF s2] show ?case
    by (auto simp: e tb fun_eq_iff)
qed

lemma onAfterTestsRead_effect:
  assumes "onAfterTestsRead h st c = Inr st'"
  shows "heap st' = (\<lambda>t. if t \<in> fst ` set (eachTest c) then enableTest (heap st t) else heap st t)"
    and "opts st' = opts st"
  using assms forEachTest_effect
  by (fastforce simp: onAfterTestsRead_def split: prod.splits)+

lemma dirFnsOf_Cons_string:
  "screenshotsDir (forBrowser h b) = DirString dir \<Longrightarrow> dirFnsOf h (b # bs) m = dirFnsOf h bs m"
  by (auto simp: dirFnsOf_def fun_eq_iff split: screenshots_dir.splits)

lemma dirFnsOf_Cons_function:
  "screenshotsDir (forBrowser h b) = DirFunction f \<Longrightarrow>
     dirFnsOf h (b # bs) m = dirFnsOf h bs (m(b \<mapsto> Callable f))"
  by (auto simp: dirFnsOf_def fun_eq_iff split: screenshots_dir.splits)

lemma fixedDirPatterns_Cons:
  "fixedDirPatterns h (b # bs) =
     (case screenshotsDir (forBrowser h b) of
        DirString dir \<Rightarrow> [genScreenPattern (resolve h) (resolve h [cwd h, dir])]
      | DirFunction f \<Rightarrow> []) @ fixedDirPatterns h bs"
  by (simp add: fixedDirPatterns_def)

text \<open>
  The reducer: with dot-free browser ids, \<open>_.set\<close> stores each directory function
  under its browser id, and the fixed directories give their patterns in browser order.
\<close>

lemma reduce_browsers:
  assumes "\<forall>b\<in>set bs. CHR ''.'' \<notin> set b"
  shows "\<exists>acc'. foldl (collectBrowser h) (acc, pats) bs = (acc', pats @ fixedDirPatterns h bs)
           \<and> map_of acc' = dirFnsOf h bs (map_of acc)"
  using assms
proof (induction bs arbitrary: acc pats)
  case Nil
  show ?case
    by (auto simp: fixedDirPatterns_def dirFnsOf_def fun_eq_iff split: screenshots_dir.splits)
next
  case (Cons b bs)
  have rest: "\<forall>b\<in>set bs. CHR ''.'' \<notin> set b" and nodot: "CHR ''.'' \<notin> set b"
    using Cons.prems by simp_all
  show ?case
  proof (cases "screenshotsDir (forBrowser h b)")
    case (DirString dir)
    have step: "collectBrowser h (acc, pats) b =
        (acc, pats @ [genScreenPattern (resolve h) (resolve h [cwd h, dir])])"
      by (simp add: collectBrowser_def DirString)
    from Cons.IH[OF rest, of acc "pats @ [genScreenPattern (resolve h) (resolve h [cwd h, dir])]"]
    show ?thesis
      by (simp add: step fixedDirPatterns_Cons DirString dirFnsOf_Cons_string[OF DirString])
  next
    case (DirFunction f)
    have step: "collectBrowser h (acc, pats) b = (AList.update b (Callable f) acc, pats)"
      by (simp add: collectBrowser_def DirFunction lodash_set_plain[OF nodot])
    from Cons.IH[OF rest, of "AList.update b (Callable f) acc" pats] obtain acc' where
      f: "foldl (collectBrowser h) (AList.update b (Callable f) acc, pats) bs =
            (acc', pats @ fixedDirPatterns h bs)" and
      m: "map_of acc' = dirFnsOf h bs (map_of (AList.update b (Callable f) acc))"
      by blast
    have m': "map_of acc' = dirFnsOf h (b # bs) (map_of acc)"
      unfolding m dirFnsOf_Cons_function[OF DirFunction] AList.update_conv' ..
    show ?thesis
      by (intro exI[of _ acc']) (simp add: step f m' fixedDirPatterns_Cons DirFunction)
  qed
qed

lemma eachTestCallback_patterns:
  assumes "map_of fns = dirFnsOf h bs Map.empty"
  shows "\<exists>st1. eachTestCallback h fns st (t, b) = Inr st1
          \<and> screenPatterns st1 = screenPatterns st @
               (case screenshotsDir (forBrowser h b) of
                  DirFunction f \<Rightarrow>
                    if b \<in> set bs then [genScreenPattern (resolve h) (f (heap st t))] else []
                | DirString dir \<Rightarrow> [])
          \<and> heap st1 = (heap st)(t := enableTest (heap st t))"
proof (cases "screenshotsDir (forBrowser h b)")
  case (DirString dir)
  then have "map_of fns b = None" by (simp add: assms dirFnsOf_def)
  then show ?thesis by (simp add: eachTestCallback_alt DirString)
next
  case (DirFunction f)
  then have "map_of fns b = (if b \<in> set bs then Some (Callable f) else None)"
    by (simp add: assms dirFnsOf_def)
  then show ?thesis by (simp add: eachTestCallback_alt DirFunction)
qed

lemma forEachTest_patterns:
  assumes "map_of fns = dirFnsOf h bs Map.empty"
  shows "\<exists>st'. forEachTest h fns st tbs = Inr st'
           \<and> screenPatterns st' = screenPatterns st @ perTestPatterns h bs (heap st) tbs"
proof (induction tbs arbitrary: st)
  case Nil
  then show ?case by simp
next
  case (Cons tb tbs)
  obtain t b where tb: "tb = (t, b)" by (cases tb)
  from eachTestCallback_patterns[OF assms, of st t b] obtain st1 where
    s1: "eachTestCallback h fns st (t, b) = Inr st1" and
    p1: "screenPatterns st1 = screenPatterns st @
           (case screenshotsDir (forBrowser h b) of
              DirFunction f \<Rightarrow>
                if b \<in> set bs then [genScreenPattern (resolve h) (f (heap st t))] else []
            | DirString dir \<Rightarrow> [])" and
    h1: "heap st1 = (heap st)(t := enableTest (heap st t))"
    by blast
  from Cons.IH[of st1] obtain st' where
    "forEachTest h fns st1 tbs = Inr st'"
    "screenPatterns st' = screenPatterns st1 @ perTestPatterns h bs (heap st1) tbs"
    by blast
  then show ?case
    by (simp add: tb s1 p1 h1)
qed

text \<open>With dot-free browser ids the handler returns, and appends the derived patterns.\<close>

lemma onAfterTestsRead_patterns:
  assumes "\<forall>b\<in>set (getBrowsers c). CHR ''.'' \<notin> set b"
  shows "\<exists>st'. onAfterTestsRead h st c = Inr st'
           \<and> screenPatterns st' = screenPatterns st @ derivedPatterns h c (heap st)"
proof -
  from reduce_browsers[OF assms, of h "[]" "screenPatterns st"] obtain acc' where
    r: "foldl (collectBrowser h) ([], screenPatterns st) (getBrowsers c) =
          (acc', screenPatterns st @ fixedDirPatterns h (getBrowsers c))" and
    m: "map_of acc' = dirFnsOf h (getBrowsers c) Map.empty"
    by auto
  from forEachTest_patterns[OF m,
      of "st\<lparr>screenPatterns := screenPatterns st @ fixedDirPatterns h (getBrowsers c)\<rparr>"
        "eachTest c"]
  show ?thesis
    by (auto simp: onAfterTestsRead_def r derivedPatterns_def)
qed


lemma onTestEnd_frame [simp]:
  "screenPatterns (onTestEnd h st t) = screenPatterns st" "heap (onTestEnd h st t) = heap st"
  by (simp_all add: onTestEnd_def Let_def split: option.splits)


text \<open>
  The run-scoped accumulator is absent after the run exactly when the options had none
  and no delivered test-completion notification carried a list.
\<close>

lemma get_usedRefPaths_enableTest [simp]: "get_usedRefPaths (enableTest t) = get_usedRefPaths t"
  by (simp add: get_usedRefPaths_def enableTest_def)

lemma onTestEnd_used:
  "usedRefPaths (opts (onTestEnd h st t)) =
     (case get_usedRefPaths (heap st (getTestContext h t)) of
        None \<Rightarrow> usedRefPaths (opts st)
      | Some paths \<Rightarrow> Some (orEmpty (usedRefPaths (opts st)) @ paths))"
  by (simp add: onTestEnd_def Let_def split: option.splits)

lemma deliver_absent:
  assumes "deliver h st evs = Inr st'"
  shows "usedRefPaths (opts st') = None \<longleftrightarrow>
           usedRefPaths (opts st) = None \<and>
           (\<forall>t. TestEnd t \<in> set evs \<longrightarrow> get_usedRefPaths (heap st (getTestContext h t)) = None)"
  using assms
proof (induction h st evs rule: deliver.induct)
  case (1 h st)
  then show ?case by simp
next
  case (2 h st c evs)
  from "2.prems" obtain st1 where a: "onAfterTestsRead h st c = Inr st1"
    and d: "deliver h st1 evs = Inr st'"
    by (auto split: sum.splits)
  have g: "get_usedRefPaths (heap st1 r) = get_usedRefPaths (heap st r)" for r
    by (simp add: onAfterTestsRead_effect(1)[OF a])
  show ?case
    using "2.IH"[OF a d] by (simp add: g onAfterTestsRead_effect(2)[OF a])
next
  case (3 h st t evs)
  from "3.prems" have d: "deliver h (onTestEnd h st t) evs = Inr st'" by simp
  show ?case
    using "3.IH"[OF d]
    by (auto simp: onTestEnd_used split: option.splits)
qed

lemma accumulator_absent_iff:
  assumes "hermione_run h (initialState o0 tests0) = Inr st"
  shows "usedRefPaths (opts st) = None \<longleftrightarrow>
           usedRefPaths o0 = None \<and>
           (\<forall>t. TestEnd t \<in> set (runEvents h) \<longrightarrow>
                  get_usedRefPaths (tests0 (getTestContext h t)) = None)"
proof -
  from assms have "deliver h (initialState o0 tests0) (runEvents h) = Inr st"
    by (auto simp: hermione_run_def split: sum.splits option.splits)
  from deliver_absent[OF this] show ?thesis
    by (simp add: initialState_def)
qed

section \<open>The worker's handler\<close>

lemma proto_addCommand [simp]:
  "map_of (proto (addCommand b name fn)) = (map_of (proto b))(name \<mapsto> fn)"
  by (simp add: addCommand_def AList.update_conv')

lemma executionContext_addCommand [simp]:
  "executionContext (addCommand b name fn) = executionContext b"
  by (simp add: addCommand_def)

lemma calls_addCommand [simp]:
  "addCommandCalls (addCommand b name fn) = addCommandCalls b @ [(name, fn, True)]"
  by (simp add: addCommand_def)

lemma proto_stubs:
  "map_of (proto (foldl (\<lambda>b' commandName. addCommand b' commandName StubCommand) b names)) name =
     (if name \<in> set names then Some StubCommand else map_of (proto b) name)"
  by (induction names arbitrary: b) auto

lemma calls_stubs:
  "addCommandCalls (foldl (\<lambda>b' commandName. addCommand b' commandName StubCommand) b names) =
     addCommandCalls b @ map (\<lambda>n. (n, StubCommand, True)) names"
  by (induction names arbitrary: b) auto

lemma executionContext_stubs:
  "executionContext (foldl (\<lambda>b' commandName. addCommand b' commandName StubCommand) b names) =
     executionContext b"
  by (induction names arbitrary: b) auto

lemma assertViewStub_returns:
  assumes "hermioneCtx (tests ws (getTestContext h (executionContext b))) = Some c"
      and "getScreenshotPath (forBrowser h browserId)
             (tests ws (getTestContext h (executionContext b))) state = Inr p"
  shows "assertViewStub h browserId b ws state =
           Inr \<lparr>tests = (tests ws)(getTestContext h (executionContext b) :=
                    (tests ws (getTestContext h (executionContext b)))
                      \<lparr>hermioneCtx :=
                         Some (HermioneCtx (Some (orEmpty (ctxUsedRefPaths c) @ [p])))\<rparr>),
                trace = trace ws @ [GetTestContext,
                          GetScreenshotPath (getTestContext h (executionContext b)) state (Inr p)]\<rparr>"
  using assms by (simp add: assertViewStub_def Let_def)

section \<open>The shape of a derived pattern under the POSIX \<open>path.resolve\<close>\<close>

text \<open>
  With the model of \<open>path.resolve\<close> used in the examples, \<open>genScreenPattern\<close> appends
  \<open>/**/*.png\<close> to the resolved directory, unless that directory is the root.
\<close>

lemma splitOn_nonempty [simp]: "splitOn c xs \<noteq> []"
  by (induction xs) (auto split: list.splits)

lemma splitOn_segments: "s \<in> set (splitOn c xs) \<Longrightarrow> c \<notin> set s"
  by (induction xs arbitrary: s) (auto split: list.splits if_splits)

lemma splitOn_append: "splitOn c (xs @ c # ys) = splitOn c xs @ splitOn c ys"
  by (induction xs) (auto split: list.splits)

lemma splitOn_join:
  "N \<noteq> [] \<Longrightarrow> \<forall>s\<in>set N. c \<notin> set s \<Longrightarrow> splitOn c (join [c] N) = N"
proof (induction "[c]" N rule: join.induct)
  case 1
  then show ?case by simp
next
  case (2 x)
  then show ?case by (simp add: splitOn_no_separator)
next
  case (3 x y ys)
  then show ?case
    by (simp add: splitOn_append splitOn_no_separator)
qed

lemma normalizeSegments_append:
  "normalizeSegments up (xs @ ys) = normalizeSegments (rev (normalizeSegments up xs)) ys"
  by (induction xs arbitrary: up) auto

lemma normalizeSegments_clean:
  "\<forall>s\<in>set ys. cleanSegment s \<Longrightarrow> normalizeSegments up ys = rev up @ ys"
  by (induction ys arbitrary: up) (auto simp: cleanSegment_def)

lemma normalizeSegments_output:
  "s \<in> set (normalizeSegments up xs) \<Longrightarrow> s \<in> set up \<or> (s \<in> set xs \<and> cleanSegment s)"
proof (induction xs arbitrary: up)
  case Nil
  then show ?case by simp
next
  case (Cons x xs)
  have tl: "s \<in> set (tl up) \<Longrightarrow> s \<in> set up"
    by (cases up) auto
  consider "x = [] \<or> x = ''.''" | "x = ''..''" | "cleanSegment x"
    by (auto simp: cleanSegment_def)
  then show ?case
  proof cases
    case 1
    then have "s \<in> set (normalizeSegments up xs)" using Cons.prems by auto
    from Cons.IH[OF this] show ?thesis by auto
  next
    case 2
    then have "s \<in> set (normalizeSegments (tl up) xs)" using Cons.prems by simp
    from Cons.IH[OF this] tl show ?thesis by auto
  next
    case 3
    then have "s \<in> set (normalizeSegments (x # up) xs)"
      using Cons.prems by (simp add: cleanSegment_def)
    from Cons.IH[OF this] 3 show ?thesis by auto
  qed
qed

lemma join_append2:
  "N \<noteq> [] \<Longrightarrow> join sep (N @ [a, b]) = join sep N @ sep @ a @ sep @ b"
  by (induction sep N rule: join.induct) auto

lemma join_empty_iff: "\<forall>s\<in>set N. s \<noteq> [] \<Longrightarrow> join sep N = [] \<longleftrightarrow> N = []"
  by (induction sep N rule: join.induct) auto

lemma resolvedSegments_clean:
  assumes "s \<in> set (resolvedSegments workdir paths)"
  shows "cleanSegment s" "CHR ''/'' \<notin> set s"
proof -
  from normalizeSegments_output[OF assms[unfolded resolvedSegments_def]]
  have s: "s \<in> set (concat (map (splitOn (CHR ''/'')) (usedPaths (workdir # paths))))"
    and c: "cleanSegment s" by auto
  show "cleanSegment s" by (rule c)
  from s show "CHR ''/'' \<notin> set s" by (auto dest: splitOn_segments)
qed

lemma posixResolve_root_iff:
  "posixResolve workdir paths = ''/'' \<longleftrightarrow> resolvedSegments workdir paths = []"
proof -
  have "\<forall>s\<in>set (resolvedSegments workdir paths). s \<noteq> []"
    using resolvedSegments_clean(1) by (auto simp: cleanSegment_def)
  from join_empty_iff[OF this] show ?thesis
    by (simp add: posixResolve_def)
qed

lemma resolvedSegments_glob:
  "resolvedSegments workdir (paths @ [''**'', ''*.png'']) =
     resolvedSegments workdir paths @ [''**'', ''*.png'']"
proof -
  have u: "usedPaths ((workdir # paths) @ [''**'', ''*.png'']) =
      usedPaths (workdir # paths) @ [''**'', ''*.png'']"
    by (simp add: usedPaths_def isAbsolute_def)
  have "resolvedSegments workdir (paths @ [''**'', ''*.png'']) =
      normalizeSegments [] (concat (map (splitOn (CHR ''/'')) (usedPaths (workdir # paths))) @
                            [''**'', ''*.png''])"
    using u by (simp add: resolvedSegments_def splitOn_no_separator)
  also have "\<dots> = resolvedSegments workdir paths @ [''**'', ''*.png'']"
    by (simp add: normalizeSegments_append resolvedSegments_def normalizeSegments_clean
        cleanSegment_def)
  finally show ?thesis .
qed

lemma posixResolve_glob:
  assumes "posixResolve workdir paths \<noteq> ''/''"
  shows "posixResolve workdir (paths @ [''**'', ''*.png'']) =
           posixResolve workdir paths @ ''/**/*.png''"
proof -
  have "resolvedSegments workdir paths \<noteq> []"
    using assms by (simp add: posixResolve_root_iff)
  then show ?thesis
    by (simp add: posixResolve_def resolvedSegments_glob join_append2)
qed

lemma posixResolve_idem:
  "posixResolve workdir [posixResolve workdir' paths] = posixResolve workdir' paths"
proof -
  define N where "N = resolvedSegments workdir' paths"
  let ?R = "CHR ''/'' # join ''/'' N"
  have clean: "\<forall>s\<in>set N. cleanSegment s" and slash: "\<forall>s\<in>set N. CHR ''/'' \<notin> set s"
    unfolding N_def using resolvedSegments_clean by blast+
  have used: "usedPaths [workdir, ?R] = [?R]"
    by (simp add: usedPaths_def isAbsolute_def)
  have split: "normalizeSegments [] (splitOn (CHR ''/'') ?R) = N"
  proof (cases "N = []")
    case True
    then show ?thesis by simp
  next
    case False
    have sj: "splitOn (CHR ''/'') (join ''/'' N) = N"
      by (rule splitOn_join[OF False slash])
    have sp: "splitOn (CHR ''/'') ?R = [] # splitOn (CHR ''/'') (join ''/'' N)"
      by simp
    have nm: "normalizeSegments [] ([] # N) = N"
      by (simp add: normalizeSegments_clean[OF clean])
    show ?thesis
      by (simp only: sp sj nm)
  qed
  have "resolvedSegments workdir [?R] = N"
    by (simp only: resolvedSegments_def used list.map concat.simps append_Nil2 split)
  then show ?thesis
    by (simp add: posixResolve_def N_def)
qed

lemma genScreenPattern_fixed:
  assumes "posixResolve w [w, dir] \<noteq> ''/''"
  shows "genScreenPattern (posixResolve w) (posixResolve w [w, dir]) =
           posixResolve w [w, dir] @ ''/**/*.png''"
proof -
  have "posixResolve w [posixResolve w [w, dir]] \<noteq> ''/''"
    using assms by (simp add: posixResolve_idem)
  from posixResolve_glob[OF this] show ?thesis
    by (simp add: genScreenPattern_def posixResolve_idem)
qed

lemma genScreenPattern_function:
  assumes "posixResolve w [dir] \<noteq> ''/''"
  shows "genScreenPattern (posixResolve w) dir = posixResolve w [dir] @ ''/**/*.png''"
  using posixResolve_glob[OF assms] by (simp add: genScreenPattern_def)

section \<open>A run of the test suite's scenario\<close>

text \<open>
  Two screenshots found, none used, sizes 100 and 200, the list not shown, the removal
  confirmed: the calls of the action, in order.
\<close>

lemma size_report_example:
  "cleanScreenshots exHost exOpts exTests =
     ([HermioneRun,
       Debug (''Try to find screen paths on file system by patterns:'' @ newline @ ''/screens/**''),
       ExpandPaths [''/screens/**''] ''.png'',
       Debug (''Found screen paths on file system:'' @ newline @ ''/screens/plain.png'' @ newline @
                ''/screens/hover.png''),
       Debug (''Found unused screenshots:'' @ newline @ ''/screens/plain.png'' @ newline @
                ''/screens/hover.png''),
       FsStat ''/screens/plain.png'', FsStat ''/screens/hover.png'',
       LoggerLog ''Found 2 unused screenshots with total size 300 B'',
       Prompt ''show'' ''Show list of unused screenshosts?'', Prompt ''remove'' ''Remove unused screenshots?'',
       FsUnlink ''/screens/plain.png'', FsUnlink ''/screens/hover.png'',
       LoggerLog ''Deletion of unused screenshots was succeeded''],
      Some Removed)"
  by code_simp

section \<open>The claims\<close>

subsection \<open>C1: the unused set is the set difference\<close>



subsection \<open>C2: the patterns handed to glob expansion\<close>




text \<open>
  Outside the plain property names: \<open>_.set\<close> reads the browser id \<open>chrome.90\<close> as the
  path \<open>chrome\<close>, \<open>90\<close>, the lookup \<open>screenDirFns['chrome.90']\<close> finds nothing, and
  the directory function of that browser gives no pattern.
\<close>

lemma dotted_browser_id_example:
  "expandedPatterns (fst (cleanScreenshots
       (exHost\<lparr>runEvents := [AfterTestsRead \<lparr>getBrowsers = [''chrome.90''],
                                               eachTest = [(0, ''chrome.90'')]\<rparr>]\<rparr>)
       exOpts exTests)) = [[''/screens/**'']]
   \<and> derivedPatterns exHost \<lparr>getBrowsers = [''chrome.90''], eachTest = [(0, ''chrome.90'')]\<rparr>
        exTests = [''/dir/file1/screens/**/*.png'']"
  by code_simp

subsection \<open>C3: nothing found, nothing done\<close>

text \<open>
  C3. When the run resolves and glob expansion returns no path, or every path it returns
  is used, the action logs the matching "not found" message (through \<open>logger.error\<close> in
  the first case, \<open>logger.log\<close> in the second), returns without an exit, and calls
  neither \<open>fs.stat\<close>, nor the prompt, nor \<open>fs.unlink\<close>.
\<close>

theorem nothing_found_stops:
  assumes run: "hermione_run h (initialState o0 tests0) = Inr st"
      and expand: "expandPaths h (uniq (screenPatterns st)) = Inr found"
      and empty: "found = [] \<or> difference found (usedRefPaths (opts st)) = []"
  shows "cleanScreenshots h o0 tests0 =
           ([HermioneRun,
             Debug (''Try to find screen paths on file system by patterns:'' @ newline @
                      join newline (uniq (screenPatterns st))),
             ExpandPaths (uniq (screenPatterns st)) ''.png''] @
            (if found = []
             then [LoggerError (Text (''Screenshot paths not found on file system by patterns:'' @
                                        newline @ join newline (uniq (screenPatterns st))))]
             else [Debug (''Found screen paths on file system:'' @ newline @ join newline found),
                   LoggerLog (''Unused screenshots not found by patterns: '' @
                                join '','' (uniq (screenPatterns st)))]),
            Some (if found = [] then PathsNotFound else UnusedNotFound))
         \<and> filter (\<lambda>c. isStat c \<or> isPrompt c \<or> isUnlink c \<or> isExit c)
              (fst (cleanScreenshots h o0 tests0)) = []"
  using empty
  by (auto simp: cleanScreenshots_def actionBody_def run expandStep_def expand Let_def
      diffStep_def after_def)

theorem nothing_found_stops_witness:
  "cleanScreenshots (exHost\<lparr>expandPaths := (\<lambda>patterns. Inr [])\<rparr>) exOpts exTests =
     ([HermioneRun,
       Debug (''Try to find screen paths on file system by patterns:'' @ newline @ ''/screens/**''),
       ExpandPaths [''/screens/**''] ''.png'',
       LoggerError (Text (''Screenshot paths not found on file system by patterns:'' @ newline @
                            ''/screens/**''))],
      Some PathsNotFound)
   \<and> cleanScreenshots
        (exHost\<lparr>runEvents := [TestEnd 2],
                expandPaths := (\<lambda>patterns. Inr [''/screens/plain.png''])\<rparr>) exOpts exTests =
     ([HermioneRun,
       Debug (''Try to find screen paths on file system by patterns:'' @ newline @ ''/screens/**''),
       ExpandPaths [''/screens/**''] ''.png'',
       Debug (''Found screen paths on file system:'' @ newline @ ''/screens/plain.png''),
       LoggerLog ''Unused screenshots not found by patterns: /screens/**''],
      Some UnusedNotFound)"
proof -
  let ?h1 = "exHost\<lparr>expandPaths := (\<lambda>patterns. Inr [])\<rparr>"
  let ?h2 = "exHost\<lparr>runEvents := [TestEnd 2],
                expandPaths := (\<lambda>patterns. Inr [''/screens/plain.png''])\<rparr>"
  let ?st1 = "initialState exOpts exTests"
  let ?st2 = "(initialState exOpts exTests)
     \<lparr>opts := (opts (initialState exOpts exTests))\<lparr>usedRefPaths := Some [''/screens/plain.png'']\<rparr>\<rparr>"
  have run1: "hermione_run ?h1 (initialState exOpts exTests) = Inr ?st1"
    by (simp add: hermione_run_def exHost_def)
  have expand1: "expandPaths ?h1 (uniq (screenPatterns ?st1)) = Inr []"
    by (simp add: exHost_def)
  have run2: "hermione_run ?h2 (initialState exOpts exTests) = Inr ?st2"
    by (simp add: hermione_run_def onTestEnd_def get_usedRefPaths_def orEmpty_def
        initialState_def ex_defs)
  have expand2: "expandPaths ?h2 (uniq (screenPatterns ?st2)) = Inr [''/screens/plain.png'']"
    by (simp add: exHost_def)
  have empty2: "[''/screens/plain.png''] = [] \<or>
      difference [''/screens/plain.png''] (usedRefPaths (opts ?st2)) = []"
    by (simp add: difference_def)
  have pats: "uniq (screenPatterns ?st1) = [''/screens/**'']"
    "uniq (screenPatterns ?st2) = [''/screens/**'']"
    by (simp_all add: initialState_def exOpts_def uniq_def)
  show ?thesis
    using nothing_found_stops[OF run1 expand1] nothing_found_stops[OF run2 expand2 empty2]
    by (simp add: pats)
qed

subsection \<open>C4: the answer to "remove" decides the deletion\<close>

text \<open>
  C4. When the pipeline reaches the "remove" question (the run resolved, the expansion
  returned paths of which some are unused, the sizes were read and the "show" question
  was answered): on the answer false it calls \<open>fs.unlink\<close> not once, logs the
  cancellation last and returns; on the answer true its \<open>fs.unlink\<close> calls are exactly
  one per entry of the unused list, in order (so one per path, the found paths being
  distinct), and when every unlink succeeds it logs the success last and returns.
\<close>

theorem remove_answer_decides:
  assumes run: "hermione_run h (initialState o0 tests0) = Inr st"
      and expand: "expandPaths h (uniq (screenPatterns st)) = Inr found"
      and unused: "unused = difference found (usedRefPaths (opts st))" "unused \<noteq> []"
      and sizes: "pMap (stat h) unused = Inr sizes"
      and sh: "prompt h ''show'' = Inr sh"
      and rm: "prompt h ''remove'' = Inr rm"
  shows "(\<not> rm \<longrightarrow>
            filter isUnlink (fst (cleanScreenshots h o0 tests0)) = []
          \<and> last (fst (cleanScreenshots h o0 tests0)) =
              LoggerLog ''Deletion of unused screenshots was canceled''
          \<and> snd (cleanScreenshots h o0 tests0) = Some Canceled)
       \<and> (rm \<longrightarrow>
            filter isUnlink (fst (cleanScreenshots h o0 tests0)) = map FsUnlink unused
          \<and> (\<forall>p. count_list (fst (cleanScreenshots h o0 tests0)) (FsUnlink p) = count_list unused p)
          \<and> (distinct found \<longrightarrow>
               (\<forall>p\<in>set unused. count_list (fst (cleanScreenshots h o0 tests0)) (FsUnlink p) = 1))
          \<and> ((\<forall>p\<in>set unused. \<exists>u. unlink h p = Inr u) \<longrightarrow>
                 last (fst (cleanScreenshots h o0 tests0)) =
                   LoggerLog ''Deletion of unused screenshots was succeeded''
               \<and> snd (cleanScreenshots h o0 tests0) = Some Removed))"
proof (cases rm)
  case False
  then show ?thesis
    by (simp add: cleanScreenshots_unused[OF assms] Let_def)
next
  case True
  have cnt: "\<And>p. count_list (fst (cleanScreenshots h o0 tests0)) (FsUnlink p) = count_list unused p"
    using True by (simp add: cleanScreenshots_unused[OF assms] Let_def split: sum.splits)
  have fl: "filter isUnlink (fst (cleanScreenshots h o0 tests0)) = map FsUnlink unused"
    using True by (simp add: cleanScreenshots_unused[OF assms] Let_def split: sum.splits)
  have one: "distinct found \<Longrightarrow> p \<in> set unused \<Longrightarrow> count_list unused p = 1" for p
    using distinct_difference[of found "usedRefPaths (opts st)"] unused(1)
    by (simp add: count_list_distinct)
  have ok: "last (fst (cleanScreenshots h o0 tests0)) =
                   LoggerLog ''Deletion of unused screenshots was succeeded''
               \<and> snd (cleanScreenshots h o0 tests0) = Some Removed"
    if "\<forall>p\<in>set unused. \<exists>u. unlink h p = Inr u"
  proof -
    from that obtain us where "pMap (unlink h) unused = Inr us"
      using pMap_all[of "unlink h" unused] by blast
    then show ?thesis using True by (simp add: cleanScreenshots_unused[OF assms] Let_def)
  qed
  show ?thesis using True cnt fl one ok by simp
qed

theorem remove_answer_decides_witness:
  "filter isUnlink (fst (cleanScreenshots exHost exOpts exTests)) =
     [FsUnlink ''/screens/plain.png'', FsUnlink ''/screens/hover.png'']
   \<and> count_list (fst (cleanScreenshots exHost exOpts exTests)) (FsUnlink ''/screens/hover.png'') = 1
   \<and> last (fst (cleanScreenshots exHost exOpts exTests)) =
        LoggerLog ''Deletion of unused screenshots was succeeded''
   \<and> snd (cleanScreenshots exHost exOpts exTests) = Some Removed
   \<and> filter isUnlink (fst (cleanScreenshots (exHost\<lparr>prompt := (\<lambda>question. Inr False)\<rparr>)
        exOpts exTests)) = []
   \<and> last (fst (cleanScreenshots (exHost\<lparr>prompt := (\<lambda>question. Inr False)\<rparr>) exOpts exTests)) =
        LoggerLog ''Deletion of unused screenshots was canceled''
   \<and> snd (cleanScreenshots (exHost\<lparr>prompt := (\<lambda>question. Inr False)\<rparr>) exOpts exTests) =
        Some Canceled"
proof -
  let ?h2 = "exHost\<lparr>prompt := (\<lambda>question. Inr False)\<rparr>"
  let ?st = "initialState exOpts exTests"
  let ?found = "[''/screens/plain.png'', ''/screens/hover.png'']"
  have run1: "hermione_run exHost (initialState exOpts exTests) = Inr ?st"
    by (simp add: hermione_run_def exHost_def)
  have run2: "hermione_run ?h2 (initialState exOpts exTests) = Inr ?st"
    by (simp add: hermione_run_def exHost_def)
  have expand1: "expandPaths exHost (uniq (screenPatterns ?st)) = Inr ?found"
    by (simp add: exHost_def)
  have expand2: "expandPaths ?h2 (uniq (screenPatterns ?st)) = Inr ?found"
    by (simp add: exHost_def)
  have unused: "?found = difference ?found (usedRefPaths (opts ?st))" "?found \<noteq> []"
    by (simp_all add: difference_def initialState_def exOpts_def)
  have sizes1: "pMap (stat exHost) ?found = Inr [100, 200]"
    by (simp add: exHost_def)
  have sizes2: "pMap (stat ?h2) ?found = Inr [100, 200]"
    by (simp add: exHost_def)
  have sh1: "prompt exHost ''show'' = Inr False" and rm1: "prompt exHost ''remove'' = Inr True"
    by (simp_all add: exHost_def)
  have sh2: "prompt ?h2 ''show'' = Inr False" and rm2: "prompt ?h2 ''remove'' = Inr False"
    by (simp_all add: exHost_def)
  have ok: "\<forall>p\<in>set ?found. \<exists>u. unlink exHost p = Inr u"
    by (simp add: exHost_def)
  show ?thesis
    using remove_answer_decides[OF run1 expand1 unused sizes1 sh1 rm1] ok
      remove_answer_decides[OF run2 expand2 unused sizes2 sh2 rm2]
    by simp
qed

subsection \<open>C5: the assertView replacement records the reference paths\<close>

text \<open>
  C5. A test whose object carries \<open>hermioneCtx\<close> calls the installed \<open>assertView\<close>
  with the state labels \<open>states\<close>, and the resolver returns on each of them. Then every
  call returns; the calls made are, per label and in order, one to
  \<open>mocha.getTestContext\<close> and one to the browser's \<open>getScreenshotPath\<close> with the test
  and the label, and nothing else (no comparison, no file access); afterwards the test's
  \<open>usedRefPaths\<close> is what it was followed by the paths the resolver returned, in call
  order, and no other test changed.
\<close>

theorem assertView_records_paths:
  assumes ctx: "hermioneCtx (tests ws (getTestContext h (executionContext b))) \<noteq> None"
      and returns: "\<forall>t. \<forall>state\<in>set states.
                      \<exists>p. getScreenshotPath (forBrowser h browserId) t state = Inr p"
  shows "\<exists>ws' paths.
           assertViews h browserId b ws states = Inr ws'
         \<and> length paths = length states
         \<and> get_usedRefPaths (tests ws' (getTestContext h (executionContext b))) =
             (if states = []
              then get_usedRefPaths (tests ws (getTestContext h (executionContext b)))
              else Some (orEmpty (get_usedRefPaths
                                    (tests ws (getTestContext h (executionContext b)))) @ paths))
         \<and> trace ws' = trace ws @
             concat (map (\<lambda>(state, p). [GetTestContext,
                            GetScreenshotPath (getTestContext h (executionContext b)) state (Inr p)])
                       (zip states paths))
         \<and> (\<forall>t'. t' \<noteq> getTestContext h (executionContext b) \<longrightarrow> tests ws' t' = tests ws t')"
  using assms
proof (induction states arbitrary: ws)
  case Nil
  then show ?case by simp
next
  case (Cons state states)
  let ?t = "getTestContext h (executionContext b)"
  from Cons.prems(1) obtain c where c: "hermioneCtx (tests ws ?t) = Some c" by auto
  from Cons.prems(2) obtain p where
    p: "getScreenshotPath (forBrowser h browserId) (tests ws ?t) state = Inr p" by auto
  define ws1 where "ws1 = \<lparr>tests = (tests ws)(?t := (tests ws ?t)
                      \<lparr>hermioneCtx := Some (HermioneCtx (Some (orEmpty (ctxUsedRefPaths c) @ [p])))\<rparr>),
                trace = trace ws @ [GetTestContext, GetScreenshotPath ?t state (Inr p)]\<rparr>"
  have step: "assertViewStub h browserId b ws state = Inr ws1"
    unfolding ws1_def by (rule assertViewStub_returns[OF c p])
  have ctx1: "hermioneCtx (tests ws1 ?t) \<noteq> None" by (simp add: ws1_def)
  have ret1: "\<forall>t. \<forall>state\<in>set states.
                \<exists>p. getScreenshotPath (forBrowser h browserId) t state = Inr p"
    using Cons.prems(2) by simp
  from Cons.IH[OF ctx1 ret1] obtain ws' paths where
    run: "assertViews h browserId b ws1 states = Inr ws'"
    and len: "length paths = length states"
    and acc: "get_usedRefPaths (tests ws' ?t) =
               (if states = [] then get_usedRefPaths (tests ws1 ?t)
                else Some (orEmpty (get_usedRefPaths (tests ws1 ?t)) @ paths))"
    and tr: "trace ws' = trace ws1 @
             concat (map (\<lambda>(state, p). [GetTestContext, GetScreenshotPath ?t state (Inr p)])
                       (zip states paths))"
    and others: "\<forall>t'. t' \<noteq> ?t \<longrightarrow> tests ws' t' = tests ws1 t'"
    by blast
  have acc1: "get_usedRefPaths (tests ws1 ?t) =
      Some (orEmpty (get_usedRefPaths (tests ws ?t)) @ [p])"
    by (simp add: ws1_def get_usedRefPaths_def c)
  have "assertViews h browserId b ws (state # states) = Inr ws'"
    by (simp add: step run)
  moreover have "length (p # paths) = length (state # states)" using len by simp
  moreover have "get_usedRefPaths (tests ws' ?t) =
      Some (orEmpty (get_usedRefPaths (tests ws ?t)) @ p # paths)"
    using len by (auto simp: acc acc1 orEmpty_def)
  moreover have "trace ws' = trace ws @
             concat (map (\<lambda>(state, p). [GetTestContext, GetScreenshotPath ?t state (Inr p)])
                       (zip (state # states) (p # paths)))"
    by (simp add: tr ws1_def)
  moreover have "\<forall>t'. t' \<noteq> ?t \<longrightarrow> tests ws' t' = tests ws t'"
    using others by (simp add: ws1_def)
  ultimately show ?case
    by (intro exI[of _ ws'] exI[of _ "p # paths"]) simp
qed

text \<open>The specification's scenario: two calls, \<open>plain1\<close> then \<open>plain2\<close>.\<close>

theorem assertView_records_paths_witness:
  "assertViews exHost ''yabro'' exBrowser \<lparr>tests = exTests, trace = []\<rparr> [''plain1'', ''plain2'']
     = Inr \<lparr>tests = exTests(4 := exTest ''/dir/other'' None (Some [''/ref/1'', ''/ref/2''])),
            trace = [GetTestContext, GetScreenshotPath 4 ''plain1'' (Inr ''/ref/1''),
                     GetTestContext, GetScreenshotPath 4 ''plain2'' (Inr ''/ref/2'')]\<rparr>"
proof -
  have ctx: "hermioneCtx (tests \<lparr>tests = exTests, trace = []\<rparr>
               (getTestContext exHost (executionContext exBrowser))) \<noteq> None"
    by (simp add: exHost_def exBrowser_def exTests_def exTest_def)
  have returns: "\<forall>t. \<forall>state\<in>set [''plain1'', ''plain2''].
      \<exists>p. getScreenshotPath (forBrowser exHost ''yabro'') t state = Inr p"
    by (simp add: exHost_def exConfig_def exResolver_def)
  show ?thesis
    using assertView_records_paths[OF ctx returns]
    by (simp add: assertViewStub_def exHost_def exBrowser_def exTests_def exTest_def exConfig_def
        exResolver_def orEmpty_def Let_def fun_upd_twist)
qed

subsection \<open>C6: merging a finished test's paths\<close>

text \<open>
  C6, as the code has it. On a test-completion notification the entries of the context's
  \<open>usedRefPaths\<close> list are appended to the run-scoped accumulator (an absent accumulator
  counting as empty) if and only if the context carries such a list, empty or not; when
  the context carries none, the state is left entirely unchanged.
\<close>

theorem test_end_appends:
  "(get_usedRefPaths (heap st (getTestContext h t)) = None \<longrightarrow> onTestEnd h st t = st)
   \<and> (\<forall>paths. get_usedRefPaths (heap st (getTestContext h t)) = Some paths \<longrightarrow>
         usedRefPaths (opts (onTestEnd h st t)) = Some (orEmpty (usedRefPaths (opts st)) @ paths)
       \<and> onTestEnd h st t =
           st\<lparr>opts := (opts st)\<lparr>usedRefPaths := Some (orEmpty (usedRefPaths (opts st)) @ paths)\<rparr>\<rparr>)"
  by (simp add: onTestEnd_def Let_def)

theorem test_end_appends_witness:
  "onTestEnd exHost (initialState exOpts exTests) 0 = initialState exOpts exTests
   \<and> usedRefPaths (opts (onTestEnd exHost (initialState exOpts exTests) 2)) =
       Some [''/screens/plain.png'']
   \<and> usedRefPaths (opts (onTestEnd exHost
        ((initialState exOpts exTests)\<lparr>opts := exOpts\<lparr>usedRefPaths := Some [''/ref/path/1'']\<rparr>\<rparr>) 2)) =
       Some [''/ref/path/1'', ''/screens/plain.png'']"
  using test_end_appends[of "initialState exOpts exTests" exHost 0]
    test_end_appends[of "initialState exOpts exTests" exHost 2]
    test_end_appends[of "(initialState exOpts exTests)\<lparr>opts := exOpts\<lparr>usedRefPaths := Some [''/ref/path/1'']\<rparr>\<rparr>" exHost 2]
  by (simp add: get_usedRefPaths_def orEmpty_def initialState_def ex_defs)

text \<open>
  C6 as stated fails on a context that carries an empty list: the array is truthy, so
  the handler runs, and an absent accumulator becomes the empty list.
\<close>

theorem test_end_empty_list_counterexample:
  "get_usedRefPaths (heap (initialState exOpts exTests) (getTestContext exHost 3)) = Some []
   \<and> usedRefPaths (opts (initialState exOpts exTests)) = None
   \<and> usedRefPaths (opts (onTestEnd exHost (initialState exOpts exTests) 3)) = Some []
   \<and> onTestEnd exHost (initialState exOpts exTests) 3 \<noteq> initialState exOpts exTests"
proof -
  have a: "get_usedRefPaths (heap (initialState exOpts exTests) (getTestContext exHost 3)) = Some []"
    by (simp add: get_usedRefPaths_def initialState_def ex_defs)
  have b: "usedRefPaths (opts (initialState exOpts exTests)) = None"
    by (simp add: initialState_def exOpts_def)
  have c: "usedRefPaths (opts (onTestEnd exHost (initialState exOpts exTests) 3)) = Some []"
    by (simp add: onTestEnd_def a orEmpty_def b)
  from b c have "onTestEnd exHost (initialState exOpts exTests) 3 \<noteq> initialState exOpts exTests"
    by (metis option.distinct(1))
  with a b c show ?thesis by simp
qed

subsection \<open>C7: the worker's handler and the flag\<close>

text \<open>
  C7. Without the flag \<open>runCleanScreenshots\<close> the NEW_BROWSER handler returns the session
  as it was: no command replaced, no call to \<open>addCommand\<close>. With the flag, every own
  enumerable name of the prototype that is neither a key of \<open>EventEmitter.prototype\<close>, nor
  \<open>addCommand\<close>, \<open>assertView\<close> or \<open>executionContext\<close>, nor starts with an underscore
  is bound to the stub, which resolves to \<open>{value: {}}\<close>; \<open>assertView\<close> is bound to the
  recording function, by one call; every other name keeps its binding.
\<close>

theorem new_browser_stubs:
  "(\<not> runCleanScreenshots o0 \<longrightarrow> onNewBrowser h o0 b browserId = b)
   \<and> (runCleanScreenshots o0 \<longrightarrow>
        (\<forall>name. map_of (proto (onNewBrowser h o0 b browserId)) name =
           (if name = ''assertView'' then Some (AssertViewStub browserId)
            else if name \<in> set (map fst (proto b)) \<and> name \<notin> set (eventEmitterKeys h)
                    \<and> name \<noteq> ''addCommand'' \<and> name \<noteq> ''executionContext''
                    \<and> \<not> startsWithUnderscore name
                 then Some StubCommand
                 else map_of (proto b) name))
      \<and> addCommandCalls (onNewBrowser h o0 b browserId) =
          addCommandCalls b @ map (\<lambda>n. (n, StubCommand, True)) (commandsList h b) @
            [(''assertView'', AssertViewStub browserId, True)]
      \<and> executionContext (onNewBrowser h o0 b browserId) = executionContext b)
   \<and> stubCommand args = Inr (JsonObject [(''value'', JsonObject [])])"
  by (auto simp: onNewBrowser_def proto_stubs calls_stubs executionContext_stubs commandsList_def
      reservedCommands_def stubCommand_def)

theorem new_browser_stubs_witness:
  "onNewBrowser exHost exOpts exBrowser ''yabro'' = exBrowser
   \<and> proto (onNewBrowser exHost (exOpts\<lparr>runCleanScreenshots := True\<rparr>) exBrowser ''yabro'') =
       [(''broCommand'', StubCommand), (''on'', Original ''on''),
        (''_private1'', Original ''_private1''),
        (''executionContext'', Original ''executionContext''),
        (''addCommand'', Original ''addCommand''),
        (''assertView'', AssertViewStub ''yabro'')]
   \<and> addCommandCalls (onNewBrowser exHost (exOpts\<lparr>runCleanScreenshots := True\<rparr>) exBrowser ''yabro'') =
       [(''broCommand'', StubCommand, True), (''assertView'', AssertViewStub ''yabro'', True)]"
  using new_browser_stubs[of exOpts exHost exBrowser "''yabro''"]
    new_browser_stubs[of "exOpts\<lparr>runCleanScreenshots := True\<rparr>" exHost exBrowser "''yabro''"]
  by (simp add: onNewBrowser_def commandsList_def reservedCommands_def startsWithUnderscore_def
      addCommand_def ex_defs)

subsection \<open>C8: the single error boundary\<close>

text \<open>
  C8. Whatever the collaborators do: when a step of the pipeline fails (the run, the
  expansion, a stat, a prompt, an unlink), the action's calls end with
  \<open>logger.error(err.stack || err)\<close> and \<open>process.exit(1)\<close>, and there is no other exit;
  when no step fails, the action returns one of its four outcomes and never calls
  \<open>process.exit\<close>.
\<close>

theorem error_boundary:
  "(case pipelineFailure h o0 tests0 of
      Some e \<Rightarrow>
        (\<exists>calls. cleanScreenshots h o0 tests0 =
                    (calls @ [LoggerError (stackOrError e), ProcessExit 1], None)
                \<and> filter isExit calls = [])
    | None \<Rightarrow>
        (\<exists>calls out. cleanScreenshots h o0 tests0 = (calls, Some out) \<and> filter isExit calls = []))"
proof (cases "actionBody h o0 tests0")
  case (Pair calls r)
  have ne: "filter isExit calls = []" using no_exit_actionBody[of h o0 tests0] Pair by simp
  have pf: "pipelineFailure h o0 tests0 = (case r of Inl e \<Rightarrow> Some e | Inr out \<Rightarrow> None)"
    using actionBody_failure[of h o0 tests0] Pair by simp
  show ?thesis
    by (cases r) (simp_all add: pf cleanScreenshots_def Pair ne)
qed

theorem error_boundary_witness:
  "cleanScreenshots (exHost\<lparr>runRejection := Some (JsError (Some ''some-stack-error'') ''rejected'')\<rparr>)
     exOpts exTests =
     ([HermioneRun, LoggerError (Text ''some-stack-error''), ProcessExit 1], None)
   \<and> snd (cleanScreenshots (exHost\<lparr>prompt := (\<lambda>question. Inr False)\<rparr>) exOpts exTests) =
       Some Canceled"
  using error_boundary[of "exHost\<lparr>runRejection := Some (JsError (Some ''some-stack-error'') ''rejected'')\<rparr>"
      exOpts exTests]
    error_boundary[of "exHost\<lparr>prompt := (\<lambda>question. Inr False)\<rparr>" exOpts exTests]
  by (simp add: cleanScreenshots_def actionBody_def hermione_run_def expandStep_def diffStep_def
      sizeStep_def showStep_def confirmStep_def after_def stackOrError_def Let_def
      initialState_def difference_def uniq_def ex_defs)

subsection \<open>C9: pending tests are forced on\<close>

text \<open>
  C9, where the code misses it. The pass should force on every enumerated test whose
  \<open>pending\<close> flag is true. With the browsers \<open>chrome.90\<close> (a directory function) and
  \<open>chrome\<close>, \<open>_.set(acc, 'chrome.90', fn)\<close> leaves a non-function at
  \<open>screenDirFns.chrome\<close>; for the pair of the pending test 0 and \<open>chrome\<close> the
  callback calls it (line 114) and throws before it reaches the reset of lines 118-121.
  The handler throws, the test stays pending, and the action ends on the error with
  exit status 1.
\<close>

theorem pending_test_left_pending_on_throw:
  "pending (heap (initialState exOpts exTests) 0) = Some True
   \<and> map_of (fst (foldl (collectBrowser exHost) ([], screenPatterns (initialState exOpts exTests))
                     (getBrowsers exDottedCollection))) ''chrome'' = Some NonCallable
   \<and> eachTestCallback exHost
        (fst (foldl (collectBrowser exHost) ([], screenPatterns (initialState exOpts exTests))
                (getBrowsers exDottedCollection)))
        (initialState exOpts exTests) (0, ''chrome'') = Inl notAFunction
   \<and> onAfterTestsRead exHost (initialState exOpts exTests) exDottedCollection = Inl notAFunction
   \<and> cleanScreenshots (exHost\<lparr>runEvents := [AfterTestsRead exDottedCollection]\<rparr>) exOpts exTests =
       ([HermioneRun,
         LoggerError (Text ''TypeError: screenDirFns[browserId] is not a function''),
         ProcessExit 1], None)"
proof -
  let ?st = "initialState exOpts exTests"
  have p: "pending (heap ?st 0) = Some True"
    by (simp add: initialState_def exTests_def exTest_def)
  have red: "foldl (collectBrowser exHost) ([], pats) [''chrome.90'', ''chrome''] =
      ([(''chrome'', NonCallable)],
       pats @ [genScreenPattern (resolve exHost) (resolve exHost [cwd exHost, ''/deafult-dir''])])"
    for pats
    by (simp add: collectBrowser_def lodash_set_def castPath_def exHost_def exConfig_def)
  have browsers: "getBrowsers exDottedCollection = [''chrome.90'', ''chrome'']"
    and pairs: "eachTest exDottedCollection = [(2, ''chrome.90''), (0, ''chrome'')]"
    by (simp_all add: exDottedCollection_def)
  have m: "map_of (fst (foldl (collectBrowser exHost) ([], screenPatterns ?st)
                     (getBrowsers exDottedCollection))) ''chrome'' = Some NonCallable"
    by (simp only: browsers red) simp
  have cb: "eachTestCallback exHost
        (fst (foldl (collectBrowser exHost) ([], screenPatterns ?st)
                (getBrowsers exDottedCollection))) ?st (0, ''chrome'') = Inl notAFunction"
    by (simp only: browsers red) (simp add: eachTestCallback_def)
  have h: "onAfterTestsRead exHost ?st exDottedCollection = Inl notAFunction"
    unfolding onAfterTestsRead_def browsers pairs red
    by (simp add: eachTestCallback_def initialState_def exTests_def exTest_def)
  have a: "cleanScreenshots (exHost\<lparr>runEvents := [AfterTestsRead exDottedCollection]\<rparr>) exOpts exTests =
       ([HermioneRun,
         LoggerError (Text ''TypeError: screenDirFns[browserId] is not a function''),
         ProcessExit 1], None)"
    by code_simp
  from p m cb h a show ?thesis by simp
qed

text \<open>
  What the pass does when it completes: every enumerated test whose \<open>pending\<close> flag was
  true has \<open>pending\<close> and \<open>silentSkip\<close> set to false and is otherwise the same, and no
  test whose flag was not true, and no test that was not enumerated, is modified.
\<close>

lemma pending_tests_enabled:
  assumes pass: "onAfterTestsRead h st c = Inr st'"
      and ids: "\<forall>b\<in>set (getBrowsers c) \<union> snd ` set (eachTest c). modelledKey b"
  shows "(\<forall>t\<in>fst ` set (eachTest c). pending (heap st t) = Some True \<longrightarrow>
            heap st' t = (heap st t)\<lparr>pending := Some False, silentSkip := Some False\<rparr>)
       \<and> (\<forall>t. pending (heap st t) \<noteq> Some True \<longrightarrow> heap st' t = heap st t)
       \<and> (\<forall>t. t \<notin> fst ` set (eachTest c) \<longrightarrow> heap st' t = heap st t)"
  by (simp add: onAfterTestsRead_effect(1)[OF pass] enableTest_def)

lemma pending_tests_enabled_example:
  "(case onAfterTestsRead exHost (initialState exOpts exTests) exCollection of
      Inl e \<Rightarrow> []
    | Inr st' \<Rightarrow> [heap st' 0, heap st' 2, heap st' 3]) =
     [(exTests 0)\<lparr>pending := Some False, silentSkip := Some False\<rparr>, exTests 2, exTests 3]"
proof -
  let ?st = "initialState exOpts exTests"
  have nodot: "\<forall>b\<in>set (getBrowsers exCollection). CHR ''.'' \<notin> set b"
    by (simp add: exCollection_def)
  obtain st' where pass: "onAfterTestsRead exHost ?st exCollection = Inr st'"
    using onAfterTestsRead_patterns[OF nodot, of exHost ?st] by blast
  have ids: "\<forall>b\<in>set (getBrowsers exCollection) \<union> snd ` set (eachTest exCollection). modelledKey b"
    by (simp add: exCollection_def modelledKey_def reservedProperty_def castPath_def)
  note r = pending_tests_enabled[OF pass ids]
  have t0: "heap st' 0 = (exTests 0)\<lparr>pending := Some False, silentSkip := Some False\<rparr>"
    using r by (simp add: initialState_def exCollection_def exTests_def exTest_def)
  have t2: "heap st' 2 = exTests 2"
    using r[THEN conjunct2, THEN conjunct1, THEN spec, of 2]
    by (simp add: initialState_def exTests_def exTest_def)
  have t3: "heap st' 3 = exTests 3"
    using r[THEN conjunct2, THEN conjunct1, THEN spec, of 3]
    by (simp add: initialState_def exTests_def exTest_def)
  show ?thesis
    unfolding pass by (simp add: t0 t2 t3)
qed

text \<open>With plain browser ids the pass always completes, so it forces on every pending test.\<close>

lemma pending_tests_enabled_plain:
  assumes ids: "\<forall>b\<in>set (getBrowsers c) \<union> snd ` set (eachTest c). plainKey b"
  shows "\<exists>st'. onAfterTestsRead h st c = Inr st'
       \<and> (\<forall>t\<in>fst ` set (eachTest c). pending (heap st t) = Some True \<longrightarrow>
            heap st' t = (heap st t)\<lparr>pending := Some False, silentSkip := Some False\<rparr>)
       \<and> (\<forall>t. pending (heap st t) \<noteq> Some True \<longrightarrow> heap st' t = heap st t)
       \<and> (\<forall>t. t \<notin> fst ` set (eachTest c) \<longrightarrow> heap st' t = heap st t)"
proof -
  have nodot: "\<forall>b\<in>set (getBrowsers c). CHR ''.'' \<notin> set b"
    using ids by (simp add: plainKey_def)
  obtain st' where pass: "onAfterTestsRead h st c = Inr st'"
    using onAfterTestsRead_patterns[OF nodot, of h st] by blast
  show ?thesis
    by (intro exI[of _ st']) (simp add: pass onAfterTestsRead_effect(1)[OF pass] enableTest_def)
qed

subsection \<open>C10: an absent accumulator means nothing is used\<close>

text \<open>
  C10. The run-scoped \<open>usedRefPaths\<close> is absent after a resolved run exactly when the
  options had none and no test-completion notification of the run carried a list. When
  it is absent, the difference step keeps every found path: the unused list is the found
  list, and the action reads the size of every found path.
\<close>

theorem absent_accumulator_all_unused:
  assumes run: "hermione_run h (initialState o0 tests0) = Inr st"
      and expand: "expandPaths h (uniq (screenPatterns st)) = Inr found"
  shows "(usedRefPaths (opts st) = None \<longleftrightarrow>
            usedRefPaths o0 = None \<and>
            (\<forall>t. TestEnd t \<in> set (runEvents h) \<longrightarrow>
                   get_usedRefPaths (tests0 (getTestContext h t)) = None))
       \<and> (usedRefPaths (opts st) = None \<longrightarrow>
            difference found (usedRefPaths (opts st)) = found
          \<and> filter isStat (fst (cleanScreenshots h o0 tests0)) = map FsStat found)"
proof -
  have "difference found (usedRefPaths (opts st)) = found
      \<and> filter isStat (fst (cleanScreenshots h o0 tests0)) = map FsStat found"
    if absent: "usedRefPaths (opts st) = None"
  proof -
    have d: "difference found (usedRefPaths (opts st)) = found"
      by (simp add: difference_def absent)
    have "filter isStat (fst (actionBody h o0 tests0)) = map FsStat found"
      by (simp add: actionBody_def run expandStep_def expand Let_def diffStep_def d
          filter_isStat_sizeStep)
    then show ?thesis
      by (simp add: d fst_cleanScreenshots split: sum.splits)
  qed
  with accumulator_absent_iff[OF run] show ?thesis by blast
qed

text \<open>One test completes, and its context carries no list.\<close>

theorem absent_accumulator_all_unused_witness:
  "filter isStat (fst (cleanScreenshots (exHost\<lparr>runEvents := [TestEnd 0]\<rparr>) exOpts exTests)) =
     [FsStat ''/screens/plain.png'', FsStat ''/screens/hover.png'']"
proof -
  let ?h = "exHost\<lparr>runEvents := [TestEnd 0]\<rparr>"
  let ?st = "initialState exOpts exTests"
  have run: "hermione_run ?h (initialState exOpts exTests) = Inr ?st"
    by (simp add: hermione_run_def onTestEnd_def get_usedRefPaths_def initialState_def ex_defs)
  have absent: "usedRefPaths (opts ?st) = None"
    by (simp add: initialState_def exOpts_def)
  have expand: "expandPaths ?h (uniq (screenPatterns ?st)) =
      Inr [''/screens/plain.png'', ''/screens/hover.png'']"
    by (simp add: exHost_def)
  show ?thesis
    using absent_accumulator_all_unused[OF run expand] absent by simp
qed

end
